(* ===== verification/Go_Prelude.thy ===== *)
theory Go_Prelude
  imports Main "HOL-Library.AList" "HOL-Library.Multiset" "HOL-Library.Sublist"
    "HOL-Library.Word" "HOL-Library.List_Lexorder" "HOL-Library.Char_ord"
begin

text \<open>
  The part of the Go language and of its standard library that the controller uses, and the
  lemmas every component shares.

  \<^item> A Go string is a sequence of bytes: \<^typ>\<open>string\<close>, a list of 8-bit characters.
  \<^item> A Go map is an association list with distinct keys (\<open>gomap\<close>). The order of the list
    is not observable by the code except through \<open>range\<close>, whose order Go leaves open: a
    \<open>range\<close> loop runs over a permutation of the list chosen by a parameter of the model.
  \<^item> A handler of the controller returns nothing: it is a state transformer that ends normally
    or in a panic (nil dereference, failed type assertion), \<open>'s prog\<close>. The state in which
    the panic happened is kept, because what was already sent to Redis stays there.
  \<^item> \<open>refines\<close> relates a program to the function on abstract states it computes.
\<close>

named_theorems refine_rules \<open>composition rules of the refinement relation\<close>
named_theorems gomap_simps \<open>lookups in Go maps after an operation\<close>

text \<open>Database numbers are written as numerals; the simplifier leaves \<open>1\<close> as it is.\<close>

declare One_nat_def [simp del]

section \<open>Programs that may panic\<close>

datatype 's res = Ok 's | Panic 's

type_synonym 's prog = "'s \<Rightarrow> 's res"

definition skip :: "'s prog" where
  "skip s = Ok s"

definition panic :: "'s prog" where
  "panic s = Panic s"

definition seq :: "'s prog \<Rightarrow> 's prog \<Rightarrow> 's prog" where
  "seq p q s = (case p s of Ok s' \<Rightarrow> q s' | Panic s' \<Rightarrow> Panic s')"

fun block :: "'s prog list \<Rightarrow> 's prog" where
  "block [] = skip"
| "block (p # ps) = seq p (block ps)"

fun for_each :: "('a \<Rightarrow> 's prog) \<Rightarrow> 'a list \<Rightarrow> 's prog" where
  "for_each f [] = skip"
| "for_each f (x # xs) = seq (f x) (for_each f xs)"

definition guarded :: "bool \<Rightarrow> 's prog \<Rightarrow> 's prog" where
  "guarded b p = (if b then p else skip)"

fun returns :: "'s res \<Rightarrow> bool" where
  "returns (Ok s) = True"
| "returns (Panic s) = False"

fun final_state :: "'s res \<Rightarrow> 's" where
  "final_state (Ok s) = s"
| "final_state (Panic s) = s"

text \<open>A Go function with a result: the value, or \<open>None\<close> when the call panicked.\<close>

type_synonym ('s, 'a) call = "'s \<Rightarrow> 'a option \<times> 's"

text \<open>A Go pair of a result and an error; the error is \<open>None\<close> for \<open>nil\<close>.\<close>

type_synonym 'a with_error = "'a \<times> string option"

text \<open>The facts that run a program on a concrete state.\<close>

lemmas prog_defs = skip_def panic_def seq_def guarded_def

lemma seq_skip [simp]: "seq skip p = p" "seq p skip = p"
  by (auto simp: prog_defs fun_eq_iff split: res.splits)

lemma seq_assoc: "seq (seq p q) r = seq p (seq q r)"
  by (auto simp: prog_defs fun_eq_iff split: res.splits)

lemma seq_panic [simp]: "seq panic p = panic"
  by (auto simp: prog_defs fun_eq_iff)

lemma guarded_simps [simp]: "guarded True p = p" "guarded False p = skip"
  by (simp_all add: guarded_def)

lemma block_append: "block (ps @ qs) = seq (block ps) (block qs)"
  by (induction ps) (auto simp: seq_assoc)

lemma for_each_append: "for_each f (xs @ ys) = seq (for_each f xs) (for_each f ys)"
  by (induction xs) (auto simp: seq_assoc)

lemma for_each_concat: "for_each f (concat xss) = for_each (for_each f) xss"
  by (induction xss) (auto simp: for_each_append)

lemma for_each_map: "for_each f (map g xs) = for_each (\<lambda>x. f (g x)) xs"
  by (induction xs) auto

lemma for_each_cong [fundef_cong]:
  "xs = ys \<Longrightarrow> (\<And>x. x \<in> set ys \<Longrightarrow> f x = g x) \<Longrightarrow> for_each f xs = for_each g ys"
  by (induction xs arbitrary: ys) auto

text \<open>
  Normal return is a property of the shape of a program: a sequence returns when both parts
  do on every state.
\<close>

definition always_returns :: "'s prog \<Rightarrow> bool" where
  "always_returns p \<longleftrightarrow> (\<forall>s. returns (p s))"

lemma always_returns_skip [simp]: "always_returns skip"
  by (simp add: always_returns_def skip_def)

lemma always_returns_seq [intro]:
  "always_returns p \<Longrightarrow> always_returns q \<Longrightarrow> always_returns (seq p q)"
  unfolding always_returns_def seq_def
  by (metis res.exhaust res.simps(5) returns.simps(2))

lemma always_returns_block [intro]:
  "(\<And>p. p \<in> set ps \<Longrightarrow> always_returns p) \<Longrightarrow> always_returns (block ps)"
  by (induction ps) auto

lemma always_returns_for_each [intro]:
  "(\<And>x. x \<in> set xs \<Longrightarrow> always_returns (f x)) \<Longrightarrow> always_returns (for_each f xs)"
  by (induction xs) auto

lemma always_returns_guarded [intro]: "(b \<Longrightarrow> always_returns p) \<Longrightarrow> always_returns (guarded b p)"
  by (auto simp: guarded_def)

lemma always_returns_Ok: "always_returns p \<Longrightarrow> \<exists>s'. p s = Ok s'"
  unfolding always_returns_def by (metis returns.elims(2))

text \<open>A panic that every run reaches, whatever was done before.\<close>

definition never_returns :: "'s prog \<Rightarrow> bool" where
  "never_returns p \<longleftrightarrow> (\<forall>s. \<not> returns (p s))"

lemma never_returns_panic [simp]: "never_returns panic"
  by (simp add: never_returns_def panic_def)

lemma never_returns_seq: "never_returns p \<or> never_returns q \<Longrightarrow> never_returns (seq p q)"
  by (auto simp: never_returns_def seq_def split: res.split) (metis returns.simps(1))

lemma seq_never_returns: "\<not> returns (p s) \<Longrightarrow> \<not> returns (seq p q s)"
  by (auto simp: seq_def split: res.split)

lemma never_returns_block: "p \<in> set ps \<Longrightarrow> never_returns p \<Longrightarrow> never_returns (block ps)"
  by (induction ps) (auto intro: never_returns_seq)

lemma never_returns_for_each: "x \<in> set xs \<Longrightarrow> never_returns (f x) \<Longrightarrow> never_returns (for_each f xs)"
  by (induction xs) (auto intro: never_returns_seq)

section \<open>Refinement\<close>

text \<open>
  \<open>refines ok view p g\<close>: from every state that satisfies \<open>ok\<close> the program \<open>p\<close> returns
  normally, keeps \<open>ok\<close>, and does to the abstraction \<open>view\<close> of the state what the function
  \<open>g\<close> does. It composes like the program: sequences to composition, loops to folds.
\<close>

definition refines :: "('s \<Rightarrow> bool) \<Rightarrow> ('s \<Rightarrow> 'a) \<Rightarrow> 's prog \<Rightarrow> ('a \<Rightarrow> 'a) \<Rightarrow> bool" where
  "refines ok view p g \<longleftrightarrow>
     (\<forall>s. ok s \<longrightarrow> (\<exists>s'. p s = Ok s' \<and> ok s' \<and> view s' = g (view s)))"

lemma refinesI:
  "(\<And>s. ok s \<Longrightarrow> \<exists>s'. p s = Ok s' \<and> ok s' \<and> view s' = g (view s)) \<Longrightarrow> refines ok view p g"
  by (simp add: refines_def)

lemma refinesD:
  "refines ok view p g \<Longrightarrow> ok s \<Longrightarrow> \<exists>s'. p s = Ok s' \<and> ok s' \<and> view s' = g (view s)"
  by (simp add: refines_def)

lemma refines_returns: "refines ok view p g \<Longrightarrow> ok s \<Longrightarrow> returns (p s)"
  by (auto simp: refines_def)

lemma refines_skip [refine_rules]: "refines ok view skip (\<lambda>a. a)"
  by (simp add: refines_def skip_def)

lemma refines_seq [refine_rules]:
  "refines ok view p f \<Longrightarrow> refines ok view q g \<Longrightarrow> refines ok view (seq p q) (\<lambda>a. g (f a))"
  unfolding refines_def seq_def by (metis res.simps(5))

lemma refines_guarded [refine_rules]:
  "(b \<Longrightarrow> refines ok view p g) \<Longrightarrow> refines ok view (guarded b p) (\<lambda>a. if b then g a else a)"
  by (auto simp: guarded_def refines_skip)

lemma refines_for_each [refine_rules]:
  "(\<And>x. x \<in> set xs \<Longrightarrow> refines ok view (f x) (g x)) \<Longrightarrow>
   refines ok view (for_each f xs) (\<lambda>a. fold g xs a)"
proof (induction xs)
  case Nil
  then show ?case by (simp add: refines_skip)
next
  case (Cons x xs)
  have "refines ok view (f x) (g x)" "refines ok view (for_each f xs) (\<lambda>a. fold g xs a)"
    using Cons by auto
  from refines_seq [OF this] show ?case by simp
qed

lemma refines_cong:
  "refines ok view p f \<Longrightarrow> (\<And>a. f a = g a) \<Longrightarrow> refines ok view p g"
  by (simp add: refines_def)

text \<open>
  Under an invariant of the abstract states the function may be replaced by one that agrees with
  it on those states and keeps the invariant.
\<close>

lemma refines_restrict:
  assumes "refines ok view p g" "\<And>a. I a \<Longrightarrow> g a = g' a \<and> I (g' a)"
  shows "refines (\<lambda>s. ok s \<and> I (view s)) view p g'"
proof (rule refinesI)
  fix s
  assume s: "ok s \<and> I (view s)"
  with refinesD [OF assms(1)] obtain s' where "p s = Ok s'" "ok s'" "view s' = g (view s)"
    by blast
  with s assms(2) show "\<exists>s'. p s = Ok s' \<and> (ok s' \<and> I (view s')) \<and> view s' = g' (view s)"
    by auto
qed

section \<open>Go maps\<close>

type_synonym ('k, 'v) gomap = "('k \<times> 'v) list"

abbreviation gm_get :: "('k, 'v) gomap \<Rightarrow> 'k \<Rightarrow> 'v option" where
  "gm_get \<equiv> map_of"

abbreviation gm_set :: "'k \<Rightarrow> 'v \<Rightarrow> ('k, 'v) gomap \<Rightarrow> ('k, 'v) gomap" where
  "gm_set \<equiv> AList.update"

abbreviation gm_delete :: "'k \<Rightarrow> ('k, 'v) gomap \<Rightarrow> ('k, 'v) gomap" where
  "gm_delete \<equiv> AList.delete"

definition gm_has :: "('k, 'v) gomap \<Rightarrow> 'k \<Rightarrow> bool" where
  "gm_has m k = (gm_get m k \<noteq> None)"

definition gm_wf :: "('k, 'v) gomap \<Rightarrow> bool" where
  "gm_wf m = distinct (map fst m)"

lemma gm_has_iff: "gm_has m k \<longleftrightarrow> k \<in> fst ` set m"
  by (auto simp: gm_has_def map_of_eq_None_iff)

lemma gm_get_set [gomap_simps]: "gm_get (gm_set k v m) = (gm_get m)(k \<mapsto> v)"
  by (rule update_conv')

lemma gm_get_delete [gomap_simps]: "gm_get (gm_delete k m) = (gm_get m)(k := None)"
  by (rule delete_conv')

lemma gm_wf_Nil [simp]: "gm_wf []"
  by (simp add: gm_wf_def)

lemma gm_wf_set [simp]: "gm_wf m \<Longrightarrow> gm_wf (gm_set k v m)"
  by (simp add: gm_wf_def distinct_update)

lemma gm_wf_delete [simp]: "gm_wf m \<Longrightarrow> gm_wf (gm_delete k m)"
  by (simp add: gm_wf_def distinct_delete)

lemma gm_keys_set: "fst ` set (gm_set k v m) = insert k (fst ` set m)"
  by (simp add: dom_map_of_conv_image_fst [symmetric] gm_get_set)

text \<open>
  The order of a \<open>range\<close> loop: a function that permutes the entries of a map. Nothing else
  is known of it; it may differ from call to call.
\<close>

definition range_order :: "(('k \<times> 'v) list \<Rightarrow> ('k \<times> 'v) list) \<Rightarrow> bool" where
  "range_order ord \<longleftrightarrow> (\<forall>m. mset (ord m) = mset m)"

type_synonym map_order = "(string \<times> string) list \<Rightarrow> (string \<times> string) list"

lemma range_order_set: "range_order ord \<Longrightarrow> set (ord m) = set m"
  unfolding range_order_def by (metis mset_eq_setD)

lemma range_order_distinct_keys: "range_order ord \<Longrightarrow> gm_wf m \<Longrightarrow> gm_wf (ord m)"
  unfolding range_order_def gm_wf_def
  by (metis mset_map mset_eq_imp_distinct_iff)

lemma range_order_map_of:
  assumes "range_order ord" "gm_wf m"
  shows "map_of (ord m) = map_of m"
  using assms range_order_set [OF assms(1)] range_order_distinct_keys [OF assms]
  by (metis gm_wf_def map_of_inject_set)

lemma range_order_id [simp]: "range_order (\<lambda>m. m)" "range_order rev"
  by (simp_all add: range_order_def)

lemma distinct_one: "distinct xs \<Longrightarrow> set xs = {x} \<Longrightarrow> xs = [x]"
  by (cases xs; cases "tl xs") auto

section \<open>Strings\<close>

text \<open>
  \<open>strings.Split\<close> on a one-byte separator, \<open>strings.Join\<close>, \<open>strings.Contains\<close>, and the
  decimal notation of \<open>strconv.Itoa\<close> and \<open>fmt.Sprint\<close>.
\<close>

fun split_on :: "char \<Rightarrow> string \<Rightarrow> string list" where
  "split_on c [] = [[]]"
| "split_on c (x # xs) =
     (if x = c then [] # split_on c xs
      else (case split_on c xs of [] \<Rightarrow> [[x]] | w # ws \<Rightarrow> (x # w) # ws))"

fun join_with :: "char \<Rightarrow> string list \<Rightarrow> string" where
  "join_with c [] = []"
| "join_with c [w] = w"
| "join_with c (w # v # ws) = w @ c # join_with c (v # ws)"

fun contains :: "string \<Rightarrow> string \<Rightarrow> bool" where
  "contains [] sub = (sub = [])"
| "contains (x # xs) sub = (prefix sub (x # xs) \<or> contains xs sub)"

lemma split_on_nonempty [simp]: "split_on c s \<noteq> []"
  by (cases s) (auto split: list.splits)

lemma split_on_no_sep: "w \<in> set (split_on c s) \<Longrightarrow> c \<notin> set w"
  by (induction s arbitrary: w) (auto split: if_splits list.splits)

lemma join_split [simp]: "join_with c (split_on c s) = s"
proof (induction s)
  case Nil
  then show ?case by simp
next
  case (Cons x xs)
  obtain w ws where "split_on c xs = w # ws"
    using split_on_nonempty by (metis list.exhaust)
  with Cons show ?case by (cases ws) auto
qed

lemma split_on_single: "c \<notin> set w \<Longrightarrow> split_on c w = [w]"
  by (induction w) auto

lemma split_on_append: "c \<notin> set w \<Longrightarrow> split_on c (w @ c # s) = w # split_on c s"
  by (induction w) auto

lemma split_join:
  "ws \<noteq> [] \<Longrightarrow> \<forall>w \<in> set ws. c \<notin> set w \<Longrightarrow> split_on c (join_with c ws) = ws"
  by (induction c ws rule: join_with.induct) (auto simp: split_on_single split_on_append)

lemma contains_sublist: "contains s sub \<longleftrightarrow> sublist sub s"
  by (induction s) (auto simp: sublist_Cons_right)

lemma contains_self: "contains (a @ sub @ b) sub"
  by (auto simp: contains_sublist sublist_def)

lemma contains_prefix: "contains (sub @ b) sub"
  using contains_self [of "[]"] by simp

definition digit :: "nat \<Rightarrow> char" where
  "digit d = char_of (48 + d)"

fun nat_digits :: "nat \<Rightarrow> string" where
  "nat_digits n = (if n < 10 then [digit n] else nat_digits (n div 10) @ [digit (n mod 10)])"

declare nat_digits.simps [simp del]

definition itoa :: "int \<Rightarrow> string" where
  "itoa i = (if i < 0 then CHR ''-'' # nat_digits (nat (- i)) else nat_digits (nat i))"

definition digits_value :: "string \<Rightarrow> nat" where
  "digits_value s = foldl (\<lambda>a c. 10 * a + (of_char c - 48)) 0 s"

lemma of_char_digit: "d < 10 \<Longrightarrow> of_char (digit d) = (48 + d :: nat)"
  by (simp add: digit_def)

lemma digits_value_nat_digits: "digits_value (nat_digits n) = n"
proof (induction n rule: nat_digits.induct)
  case (1 n)
  show ?case
    by (cases "n < 10"; subst nat_digits.simps)
      (use 1 in \<open>auto simp: digits_value_def of_char_digit\<close>)
qed

lemma nat_digits_range: "c \<in> set (nat_digits n) \<Longrightarrow> \<exists>d < 10. c = digit d"
proof (induction n rule: nat_digits.induct)
  case (1 n)
  show ?case
  proof (cases "n < 10")
    case True
    with "1.prems" show ?thesis by (subst (asm) nat_digits.simps) auto
  next
    case False
    with "1.prems" have "c \<in> set (nat_digits (n div 10)) \<or> c = digit (n mod 10)"
      by (subst (asm) nat_digits.simps) auto
    with False "1.IH" show ?thesis by (metis mod_less_divisor zero_less_numeral)
  qed
qed

lemma nat_digits_code: "c \<in> set (nat_digits n) \<Longrightarrow> 48 \<le> (of_char c :: nat) \<and> (of_char c :: nat) < 58"
  using nat_digits_range [of c n] by (auto simp: of_char_digit)

lemma nat_digits_inj: "nat_digits m = nat_digits n \<longleftrightarrow> m = n"
  by (metis digits_value_nat_digits)

lemma minus_notin_nat_digits: "CHR ''-'' \<notin> set (nat_digits n)"
  using nat_digits_code [of "CHR ''-''" n] by auto

lemma nat_digits_not_minus: "nat_digits n \<noteq> CHR ''-'' # s" "CHR ''-'' # s \<noteq> nat_digits n"
  by (metis list.set_intros(1) minus_notin_nat_digits)+

lemma itoa_inj: "itoa i = itoa j \<longleftrightarrow> i = j"
  by (auto simp: itoa_def nat_digits_inj nat_digits_not_minus)

lemma itoa_chars:
  "c \<in> set (itoa i) \<Longrightarrow> c = CHR ''-'' \<or> 48 \<le> (of_char c :: nat) \<and> (of_char c :: nat) < 58"
  using nat_digits_code [of c] by (auto simp: itoa_def split: if_splits)

lemma itoa_no_special: "CHR '':'' \<notin> set (itoa i)" "CHR ''#'' \<notin> set (itoa i)"
  by (auto dest: itoa_chars)

text \<open>
  Strings built by joining fields with a separator that the fields do not contain determine
  their fields.
\<close>

lemma append_sep_inj:
  "c \<notin> set a \<Longrightarrow> c \<notin> set a' \<Longrightarrow> a @ c # b = a' @ c # b' \<longleftrightarrow> a = a' \<and> b = b'"
proof (induction a arbitrary: a')
  case Nil
  then show ?case by (cases a') auto
next
  case (Cons x xs)
  then show ?case by (cases a') auto
qed

end
