(* ===== verification/Redis.thy ===== *)
theory Redis
  imports Go_Prelude
begin

text \<open>
  The Redis client of the controller, \<open>redis/redis.go\<close>. The Redis server and the go-redis
  library are not part of the repository: they are the parameter \<open>redis_api\<close>, a record with one
  function per command the code sends. The locale \<open>redis_server\<close> states what the Redis
  documentation promises of those commands, over an abstraction \<open>members\<close> of the server's
  state: the members of the set stored under a key of a numbered database. An in-memory server
  (\<open>mem_redis\<close>) shows that the promises can be kept and runs the concrete examples.
\<close>

section \<open>The Redis server as a parameter\<close>

text \<open>
  A connection made by \<open>redis.NewClient\<close> is identified by its options. A reply of
  \<open>Do(...)\<close> is nil, an integer, a string or a list of replies.
\<close>

record redis_options =
  Network :: string
  Addr :: string
  Password :: string
  DB :: nat

datatype reply = RNil | RInt int | RBulk string | RArr "reply list"

record 's redis_api =
  Ping_cmd :: "redis_options \<Rightarrow> 's \<Rightarrow> (string + string) \<times> 's"
  SAdd_cmd :: "redis_options \<Rightarrow> string \<Rightarrow> string \<Rightarrow> 's \<Rightarrow> (string + int) \<times> 's"
  SRem_cmd :: "redis_options \<Rightarrow> string \<Rightarrow> string \<Rightarrow> 's \<Rightarrow> (string + int) \<times> 's"
  Del_cmd :: "redis_options \<Rightarrow> string \<Rightarrow> 's \<Rightarrow> (string + int) \<times> 's"
  SUnionStore_cmd :: "redis_options \<Rightarrow> string \<Rightarrow> string \<Rightarrow> 's \<Rightarrow> (string + int) \<times> 's"
  FlushAll_cmd :: "redis_options \<Rightarrow> 's \<Rightarrow> (string + string) \<times> 's"
  Do_cmd :: "redis_options \<Rightarrow> reply list \<Rightarrow> 's \<Rightarrow> (string + reply) \<times> 's"
  Close_cmd :: "redis_options \<Rightarrow> 's \<Rightarrow> string option \<times> 's"

section \<open>The client\<close>

text \<open>\<open>Client\<close> holds two pointers, one per database; \<open>None\<close> is nil.\<close>

record Client =
  DefaultDB :: "redis_options option"
  DBOne :: "redis_options option"

definition redisSocketAddr :: string where
  "redisSocketAddr = ''/opt/ats/var/run/redis/redis.sock''"

definition RSUCCESS :: int where
  "RSUCCESS = 1"

definition RFAIL :: int where
  "RFAIL = 0"

definition unix_options :: "nat \<Rightarrow> redis_options" where
  "unix_options db = \<lparr>Network = ''unix'', Addr = redisSocketAddr, Password = [], DB = db\<rparr>"

definition tcp_options :: "string \<Rightarrow> nat \<Rightarrow> redis_options" where
  "tcp_options addr db = \<lparr>Network = [], Addr = addr, Password = [], DB = db\<rparr>"

text \<open>Two connections, each tried with a ping; the first error ends the function.\<close>

definition connect_both ::
    "'s redis_api \<Rightarrow> redis_options \<Rightarrow> redis_options \<Rightarrow> 's \<Rightarrow> (string + Client) \<times> 's" where
  "connect_both R defaultDB dbOne s =
     (case Ping_cmd R defaultDB s of
        (Inl err, s1) \<Rightarrow> (Inl err, s1)
      | (Inr _, s1) \<Rightarrow>
          (case Ping_cmd R dbOne s1 of
             (Inl err, s2) \<Rightarrow> (Inl err, s2)
           | (Inr _, s2) \<Rightarrow>
               (Inr \<lparr>DefaultDB = Some defaultDB, DBOne = Some dbOne\<rparr>, s2)))"

definition CreateRedisClient :: "'s redis_api \<Rightarrow> 's \<Rightarrow> (string + Client) \<times> 's" where
  "CreateRedisClient R s = connect_both R (unix_options 0) (unix_options 1) s"

text \<open>
  \<open>InitForTesting\<close> starts a miniredis server first; \<open>run_result\<close> is what
  \<open>miniredis.Run\<close> returned, an error or the address of the server.
\<close>

definition InitForTesting :: "'s redis_api \<Rightarrow> string + string \<Rightarrow> 's \<Rightarrow> (string + Client) \<times> 's" where
  "InitForTesting R run_result s =
     (case run_result of
        Inl err \<Rightarrow> (Inl err, s)
      | Inr addr \<Rightarrow> connect_both R (tcp_options addr 0) (tcp_options addr 1) s)"

definition Flush :: "'s redis_api \<Rightarrow> Client \<Rightarrow> ('s, string option) call" where
  "Flush R c s =
     (case DefaultDB c of
        None \<Rightarrow> (None, s)
      | Some h \<Rightarrow>
          (case FlushAll_cmd R h s of
             (Inl err, s') \<Rightarrow> (Some (Some err), s')
           | (Inr _, s') \<Rightarrow> (Some None, s')))"

definition Init :: "'s redis_api \<Rightarrow> ('s, string + Client) call" where
  "Init R s =
     (case CreateRedisClient R s of
        (Inl err, s1) \<Rightarrow> (Some (Inl (''failed connecting to Redis: '' @ err)), s1)
      | (Inr rClient, s1) \<Rightarrow>
          (case Flush R rClient s1 of
             (None, s2) \<Rightarrow> (None, s2)
           | (Some (Some err), s2) \<Rightarrow> (Some (Inl (''failed to FlushAll: '' @ err)), s2)
           | (Some None, s2) \<Rightarrow> (Some (Inr rClient), s2)))"

text \<open>
  The one-command wrappers. A method call on a nil connection panics. The result and the error
  of the command are only logged, so the wrapper returns normally either way.
\<close>

definition with_conn :: "redis_options option \<Rightarrow> (redis_options \<Rightarrow> 's \<Rightarrow> 'r \<times> 's) \<Rightarrow> 's prog" where
  "with_conn h cmd s = (case h of None \<Rightarrow> Panic s | Some db \<Rightarrow> Ok (snd (cmd db s)))"

definition DefaultDBSAdd :: "'s redis_api \<Rightarrow> Client \<Rightarrow> string \<Rightarrow> string \<Rightarrow> 's prog" where
  "DefaultDBSAdd R c svcport ipport =
     with_conn (DefaultDB c) (\<lambda>db. SAdd_cmd R db svcport ipport)"

definition DefaultDBDel :: "'s redis_api \<Rightarrow> Client \<Rightarrow> string \<Rightarrow> 's prog" where
  "DefaultDBDel R c svcport = with_conn (DefaultDB c) (\<lambda>db. Del_cmd R db svcport)"

definition DefaultDBSUnionStore :: "'s redis_api \<Rightarrow> Client \<Rightarrow> string \<Rightarrow> string \<Rightarrow> 's prog" where
  "DefaultDBSUnionStore R c dest src =
     with_conn (DefaultDB c) (\<lambda>db. SUnionStore_cmd R db dest src)"

definition DBOneSAdd :: "'s redis_api \<Rightarrow> Client \<Rightarrow> string \<Rightarrow> string \<Rightarrow> 's prog" where
  "DBOneSAdd R c hostport svcport =
     with_conn (DBOne c) (\<lambda>db. SAdd_cmd R db hostport svcport)"

definition DBOneSRem :: "'s redis_api \<Rightarrow> Client \<Rightarrow> string \<Rightarrow> string \<Rightarrow> 's prog" where
  "DBOneSRem R c hostport svcport =
     with_conn (DBOne c) (\<lambda>db. SRem_cmd R db hostport svcport)"

definition DBOneDel :: "'s redis_api \<Rightarrow> Client \<Rightarrow> string \<Rightarrow> 's prog" where
  "DBOneDel R c hostport = with_conn (DBOne c) (\<lambda>db. Del_cmd R db hostport)"

definition DBOneSUnionStore :: "'s redis_api \<Rightarrow> Client \<Rightarrow> string \<Rightarrow> string \<Rightarrow> 's prog" where
  "DBOneSUnionStore R c dest src =
     with_conn (DBOne c) (\<lambda>db. SUnionStore_cmd R db dest src)"

lemmas redis_wrapper_defs = DefaultDBSAdd_def DefaultDBDel_def DefaultDBSUnionStore_def
  DBOneSAdd_def DBOneSRem_def DBOneDel_def DBOneSUnionStore_def

text \<open>\<open>Close\<close> sets both pointers to nil.\<close>

definition Close :: "'s redis_api \<Rightarrow> Client \<Rightarrow> ('s, Client) call" where
  "Close R c s =
     (case (DefaultDB c) of
        None \<Rightarrow> (None, s)
      | Some h0 \<Rightarrow>
          (let s1 = snd (Close_cmd R h0 s) in
           case (DBOne c) of
             None \<Rightarrow> (None, s1)
           | Some h1 \<Rightarrow>
               (let s2 = snd (Close_cmd R h1 s1)
                in (Some (c\<lparr>DefaultDB := None, DBOne := None\<rparr>), s2))))"

definition Terminate :: "'s redis_api \<Rightarrow> Client \<Rightarrow> ('s, Client) call" where
  "Terminate R c s =
     (case Flush R c s of
        (None, s1) \<Rightarrow> (None, s1)
      | (Some _, s1) \<Rightarrow> Close R c s1)"

definition keys_request :: "reply list" where
  "keys_request = [RBulk ''KEYS'', RBulk ''*'']"

text \<open>The replies of \<open>PrintAllKeys\<close> are only printed.\<close>

definition PrintAllKeys :: "'s redis_api \<Rightarrow> Client \<Rightarrow> 's prog" where
  "PrintAllKeys R c =
     block [with_conn (DefaultDB c) (\<lambda>db. Do_cmd R db keys_request),
            with_conn (DBOne c) (\<lambda>db. Do_cmd R db keys_request)]"

text \<open>
  Reading a whole database. The inner loop appends each value to the list under its key; the
  type assertions \<open>key.(string)\<close> and \<open>value.(string)\<close> panic on anything but a string.
\<close>

fun append_values :: "string \<Rightarrow> reply list \<Rightarrow> (string, string list) gomap
    \<Rightarrow> (string, string list) gomap option" where
  "append_values key [] kvm = Some kvm"
| "append_values key (RBulk v # values) kvm =
     append_values key values
       (gm_set key ((case gm_get kvm key of None \<Rightarrow> [] | Some vs \<Rightarrow> vs) @ [v]) kvm)"
| "append_values key (_ # values) kvm = None"

fun collect_keys :: "'s redis_api \<Rightarrow> redis_options \<Rightarrow> reply list \<Rightarrow> (string, string list) gomap
    \<Rightarrow> ('s, (string, string list) gomap) call" where
  "collect_keys R db [] kvm s = (Some kvm, s)"
| "collect_keys R db (key # ks) kvm s =
     (case Do_cmd R db [RBulk ''SMEMBERS'', key] s of
        (Inl err, s1) \<Rightarrow> collect_keys R db ks kvm s1
      | (Inr smembers, s1) \<Rightarrow>
          (case key of
             RBulk k \<Rightarrow>
               (case smembers of
                  RArr values \<Rightarrow>
                    (case append_values k values (gm_set k [] kvm) of
                       None \<Rightarrow> (None, s1)
                     | Some kvm' \<Rightarrow> collect_keys R db ks kvm' s1)
                | _ \<Rightarrow> collect_keys R db ks (gm_set k [] kvm) s1)
           | _ \<Rightarrow> (None, s1)))"

definition get_key_values :: "'s redis_api \<Rightarrow> redis_options option
    \<Rightarrow> ('s, (string, string list) gomap) call" where
  "get_key_values R h s =
     (case h of
        None \<Rightarrow> (None, s)
      | Some db \<Rightarrow>
          (case Do_cmd R db keys_request s of
             (Inr (RArr keys), s1) \<Rightarrow> collect_keys R db keys [] s1
           | (_, s1) \<Rightarrow> (Some [], s1)))"

definition GetDefaultDBKeyValues :: "'s redis_api \<Rightarrow> Client
    \<Rightarrow> ('s, (string, string list) gomap) call" where
  "GetDefaultDBKeyValues R c = get_key_values R (DefaultDB c)"

definition GetDBOneKeyValues :: "'s redis_api \<Rightarrow> Client
    \<Rightarrow> ('s, (string, string list) gomap) call" where
  "GetDBOneKeyValues R c = get_key_values R (DBOne c)"

section \<open>What the documentation promises\<close>

text \<open>
  The abstract databases: number, key, set of members. A key that is absent has no members.
\<close>

type_synonym dbs = "nat \<Rightarrow> string \<Rightarrow> string set"

definition db_add :: "nat \<Rightarrow> string \<Rightarrow> string \<Rightarrow> dbs \<Rightarrow> dbs" where
  "db_add d k v D = D(d := (D d)(k := insert v (D d k)))"

definition db_rem :: "nat \<Rightarrow> string \<Rightarrow> string \<Rightarrow> dbs \<Rightarrow> dbs" where
  "db_rem d k v D = D(d := (D d)(k := D d k - {v}))"

definition db_del :: "nat \<Rightarrow> string \<Rightarrow> dbs \<Rightarrow> dbs" where
  "db_del d k D = D(d := (D d)(k := {}))"

definition db_union :: "nat \<Rightarrow> string \<Rightarrow> string \<Rightarrow> dbs \<Rightarrow> dbs" where
  "db_union d dest src D = D(d := (D d)(dest := D d src))"

lemmas db_defs = db_add_def db_rem_def db_del_def db_union_def

lemma fold_db_add: "fold (db_add d k) vs D = D(d := (D d)(k := D d k \<union> set vs))"
  by (induction vs arbitrary: D) (auto simp: db_add_def fun_eq_iff)

lemma fold_db_rem: "fold (db_rem d k) vs D = D(d := (D d)(k := D d k - set vs))"
  by (induction vs arbitrary: D) (auto simp: db_rem_def fun_eq_iff)

definition client_open :: "Client \<Rightarrow> bool" where
  "client_open c \<longleftrightarrow> (case DefaultDB c of None \<Rightarrow> False | Some h \<Rightarrow> DB h = 0)
     \<and> (case DBOne c of None \<Rightarrow> False | Some h \<Rightarrow> DB h = 1)"

lemma client_openE:
  assumes "client_open c"
  obtains h0 h1 where "DefaultDB c = Some h0" "DB h0 = 0" "DBOne c = Some h1" "DB h1 = 1"
  using assms by (auto simp: client_open_def split: option.splits)

locale redis_server =
  fixes R :: "'s redis_api"
    and members :: "'s \<Rightarrow> dbs"
    and up :: "'s \<Rightarrow> bool"
  assumes ping: "up s \<Longrightarrow> \<exists>pong s'. Ping_cmd R h s = (Inr pong, s') \<and> up s' \<and> members s' = members s"
    and sadd: "up s \<Longrightarrow> \<exists>n s'. SAdd_cmd R h k v s = (Inr n, s') \<and> up s'
      \<and> members s' = db_add (DB h) k v (members s)"
    and srem: "up s \<Longrightarrow> \<exists>n s'. SRem_cmd R h k v s = (Inr n, s') \<and> up s'
      \<and> members s' = db_rem (DB h) k v (members s)"
    and del: "up s \<Longrightarrow> \<exists>n s'. Del_cmd R h k s = (Inr n, s') \<and> up s'
      \<and> members s' = db_del (DB h) k (members s)"
    and sunionstore: "up s \<Longrightarrow> \<exists>n s'. SUnionStore_cmd R h dest src s = (Inr n, s') \<and> up s'
      \<and> members s' = db_union (DB h) dest src (members s)"
    and flushall: "up s \<Longrightarrow> \<exists>ans s'. FlushAll_cmd R h s = (Inr ans, s') \<and> up s'
      \<and> members s' = (\<lambda>_ _. {})"
    and keys: "up s \<Longrightarrow> \<exists>ks s'. Do_cmd R h keys_request s = (Inr (RArr (map RBulk ks)), s')
      \<and> up s' \<and> members s' = members s \<and> distinct ks
      \<and> set ks = {k. members s (DB h) k \<noteq> {}}"
    and smembers: "up s \<Longrightarrow> \<exists>vs s'. Do_cmd R h [RBulk ''SMEMBERS'', RBulk k] s
        = (Inr (RArr (map RBulk vs)), s')
      \<and> up s' \<and> members s' = members s \<and> distinct vs \<and> set vs = members s (DB h) k"
    and close: "members (snd (Close_cmd R h s)) = members s"
begin

lemma refines_with_conn:
  assumes "h = Some db"
    and "\<And>s. up s \<Longrightarrow> \<exists>r s'. cmd db s = (r, s') \<and> up s' \<and> members s' = g (members s)"
  shows "refines up members (with_conn h cmd) g"
proof (rule refinesI)
  fix s
  assume "up s"
  with assms(2) obtain r s' where "cmd db s = (r, s')" "up s'" "members s' = g (members s)"
    by blast
  with assms(1) show "\<exists>s'. with_conn h cmd s = Ok s' \<and> up s' \<and> members s' = g (members s)"
    by (simp add: with_conn_def)
qed

lemma redis_refines [refine_rules]:
  assumes "client_open c"
  shows "refines up members (DefaultDBSAdd R c k v) (db_add 0 k v)"
    and "refines up members (DefaultDBDel R c k) (db_del 0 k)"
    and "refines up members (DefaultDBSUnionStore R c dest src) (db_union 0 dest src)"
    and "refines up members (DBOneSAdd R c k v) (db_add 1 k v)"
    and "refines up members (DBOneSRem R c k v) (db_rem 1 k v)"
    and "refines up members (DBOneDel R c k) (db_del 1 k)"
    and "refines up members (DBOneSUnionStore R c dest src) (db_union 1 dest src)"
proof -
  obtain h0 h1 where h: "DefaultDB c = Some h0" "DB h0 = 0" "DBOne c = Some h1" "DB h1 = 1"
    using assms by (rule client_openE)
  show "refines up members (DefaultDBSAdd R c k v) (db_add 0 k v)"
    "refines up members (DefaultDBDel R c k) (db_del 0 k)"
    "refines up members (DefaultDBSUnionStore R c dest src) (db_union 0 dest src)"
    "refines up members (DBOneSAdd R c k v) (db_add 1 k v)"
    "refines up members (DBOneSRem R c k v) (db_rem 1 k v)"
    "refines up members (DBOneDel R c k) (db_del 1 k)"
    "refines up members (DBOneSUnionStore R c dest src) (db_union 1 dest src)"
    unfolding redis_wrapper_defs
    by (rule refines_with_conn, fact h, metis h sadd srem del sunionstore)+
qed

lemma PrintAllKeys_refines [refine_rules]:
  assumes "client_open c"
  shows "refines up members (PrintAllKeys R c) (\<lambda>D. D)"
proof -
  obtain h0 h1 where h: "DefaultDB c = Some h0" "DBOne c = Some h1"
    using assms by (rule client_openE)
  have k: "\<exists>r s'. Do_cmd R h keys_request s = (r, s') \<and> up s' \<and> members s' = members s"
    if "up s" for h s
    using keys [OF that] by metis
  have "refines up members (with_conn (DefaultDB c) (\<lambda>db. Do_cmd R db keys_request)) (\<lambda>D. D)"
    "refines up members (with_conn (DBOne c) (\<lambda>db. Do_cmd R db keys_request)) (\<lambda>D. D)"
    by (rule refines_with_conn, fact h, rule k, assumption)+
  from refines_seq [OF this] show ?thesis by (simp add: PrintAllKeys_def)
qed

end

section \<open>An in-memory server\<close>

text \<open>
  Sets are lists without repetition, under keys \<open>(database, key)\<close>. When the server is not
  online every command fails and changes nothing.
\<close>

record mem_state =
  online :: bool
  store :: "((nat \<times> string) \<times> string list) list"

definition mem_set :: "mem_state \<Rightarrow> nat \<Rightarrow> string \<Rightarrow> string list" where
  "mem_set s d k = (case map_of (store s) (d, k) of None \<Rightarrow> [] | Some vs \<Rightarrow> vs)"

definition mem_put :: "nat \<Rightarrow> string \<Rightarrow> string list \<Rightarrow> mem_state \<Rightarrow> mem_state" where
  "mem_put d k vs s = s\<lparr>store := AList.update (d, k) vs (store s)\<rparr>"

definition mem_cmd :: "(mem_state \<Rightarrow> 'a \<times> mem_state) \<Rightarrow> mem_state \<Rightarrow> (string + 'a) \<times> mem_state" where
  "mem_cmd f s =
     (if online s then (case f s of (a, s') \<Rightarrow> (Inr a, s')) else (Inl ''connection refused'', s))"

definition mem_keys :: "mem_state \<Rightarrow> nat \<Rightarrow> string list" where
  "mem_keys s d =
     map (snd \<circ> fst) (filter (\<lambda>(dk, vs). fst dk = d \<and> vs \<noteq> []) (store s))"

fun mem_do :: "nat \<Rightarrow> reply list \<Rightarrow> mem_state \<Rightarrow> reply" where
  "mem_do d [RBulk c, RBulk k] s =
     (if c = ''KEYS'' then RArr (map RBulk (mem_keys s d))
      else if c = ''SMEMBERS'' then RArr (map RBulk (mem_set s d k))
      else RNil)"
| "mem_do d _ s = RNil"

definition mem_redis :: "mem_state redis_api" where
  "mem_redis = \<lparr>
     Ping_cmd = (\<lambda>h. mem_cmd (\<lambda>s. (''PONG'', s))),
     SAdd_cmd = (\<lambda>h k v. mem_cmd (\<lambda>s.
       (if v \<in> set (mem_set s (DB h) k) then 0 else 1,
        mem_put (DB h) k (List.insert v (mem_set s (DB h) k)) s))),
     SRem_cmd = (\<lambda>h k v. mem_cmd (\<lambda>s.
       (if v \<in> set (mem_set s (DB h) k) then 1 else 0,
        mem_put (DB h) k (filter (\<lambda>w. w \<noteq> v) (mem_set s (DB h) k)) s))),
     Del_cmd = (\<lambda>h k. mem_cmd (\<lambda>s.
       (if mem_set s (DB h) k = [] then 0 else 1, mem_put (DB h) k [] s))),
     SUnionStore_cmd = (\<lambda>h dest src. mem_cmd (\<lambda>s.
       (int (length (mem_set s (DB h) src)), mem_put (DB h) dest (mem_set s (DB h) src) s))),
     FlushAll_cmd = (\<lambda>h. mem_cmd (\<lambda>s. (''OK'', s\<lparr>store := []\<rparr>))),
     Do_cmd = (\<lambda>h args. mem_cmd (\<lambda>s. (mem_do (DB h) args s, s))),
     Close_cmd = (\<lambda>h s. (None, s))\<rparr>"

definition mem_members :: "mem_state \<Rightarrow> dbs" where
  "mem_members s = (\<lambda>d k. set (mem_set s d k))"

definition mem_up :: "mem_state \<Rightarrow> bool" where
  "mem_up s \<longleftrightarrow> online s \<and> distinct (map fst (store s))
     \<and> list_all (\<lambda>(dk, vs). distinct vs) (store s)"

lemma mem_up_distinct: "mem_up s \<Longrightarrow> distinct (mem_set s d k)"
  by (auto simp: mem_up_def mem_set_def list_all_iff dest: map_of_SomeD split: option.splits)

lemma mem_up_put:
  assumes "mem_up s" "distinct vs"
  shows "mem_up (mem_put d k vs s)"
proof -
  have "list_all (\<lambda>(dk, ws). distinct ws) (AList.update dk vs al)"
    if "list_all (\<lambda>(dk, ws). distinct ws) al" for dk al
    using that assms(2) by (induction al) auto
  with assms show ?thesis by (auto simp: mem_up_def mem_put_def intro: distinct_update)
qed

lemma mem_set_put: "mem_set (mem_put d k vs s) d' k' = (if d' = d \<and> k' = k then vs else mem_set s d' k')"
  by (simp add: mem_set_def mem_put_def update_conv')

lemma mem_keys_iff:
  assumes "mem_up s"
  shows "k \<in> set (mem_keys s d) \<longleftrightarrow> mem_set s d k \<noteq> []"
proof -
  have d: "distinct (map fst (store s))" using assms by (simp add: mem_up_def)
  have "k \<in> set (mem_keys s d) \<longleftrightarrow> (\<exists>vs. ((d, k), vs) \<in> set (store s) \<and> vs \<noteq> [])"
    by (force simp: mem_keys_def)
  also have "\<dots> \<longleftrightarrow> (\<exists>vs. map_of (store s) (d, k) = Some vs \<and> vs \<noteq> [])"
    by (simp add: map_of_eq_Some_iff [OF d])
  finally show ?thesis by (auto simp: mem_set_def split: option.splits)
qed

lemma mem_keys_distinct: "mem_up s \<Longrightarrow> distinct (mem_keys s d)"
proof -
  assume "mem_up s"
  then have "distinct (map fst (store s))" by (simp add: mem_up_def)
  then show ?thesis
    unfolding mem_keys_def by (induction "store s" arbitrary: s) (force simp: distinct_map inj_on_def)+
qed

interpretation mem: redis_server mem_redis mem_members mem_up
proof unfold_locales
  fix s :: mem_state and h :: redis_options and k v dest src :: string
  assume up: "mem_up s"
  note d = mem_up_distinct [OF up]
  note d2 = d [of "DB h" k] d [of "DB h" src]
  show "\<exists>pong s'. Ping_cmd mem_redis h s = (Inr pong, s') \<and> mem_up s' \<and> mem_members s' = mem_members s"
    using up by (simp add: mem_redis_def mem_cmd_def mem_up_def)
  show "\<exists>n s'. SAdd_cmd mem_redis h k v s = (Inr n, s') \<and> mem_up s'
      \<and> mem_members s' = db_add (DB h) k v (mem_members s)"
    using up d2 by (auto simp: mem_redis_def mem_cmd_def mem_members_def mem_set_put db_defs
        fun_eq_iff intro!: mem_up_put) (auto simp: mem_up_def)
  show "\<exists>n s'. SRem_cmd mem_redis h k v s = (Inr n, s') \<and> mem_up s'
      \<and> mem_members s' = db_rem (DB h) k v (mem_members s)"
    using up d2 by (auto simp: mem_redis_def mem_cmd_def mem_members_def mem_set_put db_defs
        fun_eq_iff intro!: mem_up_put) (auto simp: mem_up_def)
  show "\<exists>n s'. Del_cmd mem_redis h k s = (Inr n, s') \<and> mem_up s'
      \<and> mem_members s' = db_del (DB h) k (mem_members s)"
    using up by (auto simp: mem_redis_def mem_cmd_def mem_members_def mem_set_put db_defs
        fun_eq_iff intro!: mem_up_put) (auto simp: mem_up_def)
  show "\<exists>n s'. SUnionStore_cmd mem_redis h dest src s = (Inr n, s') \<and> mem_up s'
      \<and> mem_members s' = db_union (DB h) dest src (mem_members s)"
    using up d2 by (auto simp: mem_redis_def mem_cmd_def mem_members_def mem_set_put db_defs
        fun_eq_iff intro!: mem_up_put) (auto simp: mem_up_def)
  show "\<exists>ans s'. FlushAll_cmd mem_redis h s = (Inr ans, s') \<and> mem_up s'
      \<and> mem_members s' = (\<lambda>_ _. {})"
    using up by (auto simp: mem_redis_def mem_cmd_def mem_up_def mem_members_def mem_set_def)
  show "\<exists>ks s'. Do_cmd mem_redis h keys_request s = (Inr (RArr (map RBulk ks)), s')
      \<and> mem_up s' \<and> mem_members s' = mem_members s \<and> distinct ks
      \<and> set ks = {k. mem_members s (DB h) k \<noteq> {}}"
    using up mem_keys_iff [OF up] mem_keys_distinct [OF up]
    by (auto simp: mem_redis_def mem_cmd_def mem_members_def keys_request_def mem_up_def)
  show "\<exists>vs s'. Do_cmd mem_redis h [RBulk ''SMEMBERS'', RBulk k] s
        = (Inr (RArr (map RBulk vs)), s')
      \<and> mem_up s' \<and> mem_members s' = mem_members s \<and> distinct vs
      \<and> set vs = mem_members s (DB h) k"
    using up d2 by (auto simp: mem_redis_def mem_cmd_def mem_members_def mem_up_def)
next
  show "mem_members (snd (Close_cmd mem_redis h s)) = mem_members s" for h s
    by (simp add: mem_redis_def)
qed

text \<open>The client and the empty server of the concrete examples.\<close>

definition mem_client :: Client where
  "mem_client = \<lparr>DefaultDB = Some (unix_options 0), DBOne = Some (unix_options 1)\<rparr>"

definition mem_empty :: mem_state where
  "mem_empty = \<lparr>online = True, store = []\<rparr>"

lemma mem_client_open [simp]: "client_open mem_client"
  by (simp add: client_open_def mem_client_def unix_options_def)

lemma mem_empty_up [simp]: "mem_up mem_empty"
  by (simp add: mem_up_def mem_empty_def)

lemma mem_empty_members [simp]: "mem_members mem_empty = (\<lambda>_ _. {})"
  by (simp add: mem_members_def mem_set_def mem_empty_def)

lemma mem_members_put [simp]:
  "mem_members (mem_put d k vs s) = (mem_members s)(d := (mem_members s d)(k := set vs))"
  by (auto simp: mem_members_def mem_set_put fun_eq_iff)

section \<open>Properties\<close>

lemma append_values_list:
  "append_values k (map RBulk vs) (gm_set k ws kvm) = Some (gm_set k (ws @ vs) kvm)"
  by (induction vs arbitrary: ws) (auto simp: gm_get_set update_last)

context redis_server
begin

lemma connect_both_up:
  assumes "up s"
  shows "\<exists>s'. connect_both R h0 h1 s = (Inr \<lparr>DefaultDB = Some h0, DBOne = Some h1\<rparr>, s')
    \<and> up s' \<and> members s' = members s"
proof -
  obtain p1 s1 where 1: "Ping_cmd R h0 s = (Inr p1, s1)" "up s1" "members s1 = members s"
    using ping [OF assms] by blast
  obtain p2 s2 where "Ping_cmd R h1 s1 = (Inr p2, s2)" "up s2" "members s2 = members s1"
    using ping [OF 1(2)] by blast
  with 1 show ?thesis by (simp add: connect_both_def)
qed

lemma Flush_up:
  assumes "up s" "DefaultDB c = Some h"
  shows "\<exists>s'. Flush R c s = (Some None, s') \<and> up s' \<and> members s' = (\<lambda>_ _. {})"
  using flushall [OF assms(1), of h] assms(2) by (auto simp: Flush_def)

lemma collect_keys_up:
  assumes "up s" "distinct ks" "set ks \<inter> fst ` set kvm = {}" "gm_wf kvm"
  shows "\<exists>kvm' s'. collect_keys R h (map RBulk ks) kvm s = (Some kvm', s')
    \<and> up s' \<and> members s' = members s \<and> gm_wf kvm'
    \<and> (\<forall>k. if k \<in> set ks
          then (\<exists>vs. gm_get kvm' k = Some vs \<and> distinct vs \<and> set vs = members s (DB h) k)
          else gm_get kvm' k = gm_get kvm k)"
  using assms
proof (induction ks arbitrary: kvm s)
  case Nil
  then show ?case by simp
next
  case (Cons k ks)
  obtain vs s1 where 1: "Do_cmd R h [RBulk ''SMEMBERS'', RBulk k] s = (Inr (RArr (map RBulk vs)), s1)"
    "up s1" "members s1 = members s" "distinct vs" "set vs = members s (DB h) k"
    using smembers [OF Cons.prems(1)] by blast
  have "set ks \<inter> fst ` set (gm_set k vs kvm) = {}"
    using Cons.prems(2,3) by (auto simp: gm_keys_set)
  with Cons.IH [OF 1(2), of "gm_set k vs kvm"] Cons.prems obtain kvm' s' where
    2: "collect_keys R h (map RBulk ks) (gm_set k vs kvm) s1 = (Some kvm', s')"
    "up s'" "members s' = members s1" "gm_wf kvm'"
    and 3: "\<forall>j. if j \<in> set ks
      then (\<exists>ws. gm_get kvm' j = Some ws \<and> distinct ws \<and> set ws = members s1 (DB h) j)
      else gm_get kvm' j = gm_get (gm_set k vs kvm) j"
    by auto
  have "collect_keys R h (map RBulk (k # ks)) kvm s = (Some kvm', s')"
    using 1(1) 2(1) by (simp add: append_values_list)
  moreover have "if j \<in> set (k # ks)
      then (\<exists>ws. gm_get kvm' j = Some ws \<and> distinct ws \<and> set ws = members s (DB h) j)
      else gm_get kvm' j = gm_get kvm j" for j
    using 3 [rule_format, of j] 1(3-5) Cons.prems(2)
    by (cases "j = k") (auto simp: gm_get_set split: if_splits)
  ultimately show ?case using 1(3) 2 by auto
qed

lemma get_key_values_up:
  assumes "up s"
  shows "\<exists>kvm s'. get_key_values R (Some h) s = (Some kvm, s') \<and> up s' \<and> members s' = members s
    \<and> gm_wf kvm \<and> (\<forall>k. case gm_get kvm k of None \<Rightarrow> members s (DB h) k = {}
        | Some vs \<Rightarrow> vs \<noteq> [] \<and> distinct vs \<and> set vs = members s (DB h) k)"
proof -
  obtain ks s1 where 1: "Do_cmd R h keys_request s = (Inr (RArr (map RBulk ks)), s1)"
    "up s1" "members s1 = members s" "distinct ks" "set ks = {k. members s (DB h) k \<noteq> {}}"
    using keys [OF assms] by blast
  obtain kvm s' where 2: "collect_keys R h (map RBulk ks) [] s1 = (Some kvm, s')"
    "up s'" "members s' = members s1" "gm_wf kvm"
    and 3: "\<forall>k. if k \<in> set ks
      then (\<exists>vs. gm_get kvm k = Some vs \<and> distinct vs \<and> set vs = members s1 (DB h) k)
      else gm_get kvm k = gm_get [] k"
    using collect_keys_up [OF 1(2,4), where kvm = "[]" and h = h] by auto
  have "case gm_get kvm k of None \<Rightarrow> members s (DB h) k = {}
      | Some vs \<Rightarrow> vs \<noteq> [] \<and> distinct vs \<and> set vs = members s (DB h) k" for k
    using 3 [rule_format, of k] 1(3,5) by (auto split: option.splits if_splits)
  with 1 2 show ?thesis by (simp add: get_key_values_def)
qed

end

lemma Init_result:
  assumes "redis_server R members up" "up s"
  shows "\<exists>s'. Init R s = (Some (Inr \<lparr>DefaultDB = Some (unix_options 0), DBOne = Some (unix_options 1)\<rparr>), s')
    \<and> up s' \<and> members s' = (\<lambda>_ _. {})"
proof -
  obtain s1 where 1: "connect_both R (unix_options 0) (unix_options 1) s =
      (Inr \<lparr>DefaultDB = Some (unix_options 0), DBOne = Some (unix_options 1)\<rparr>, s1)" "up s1"
    using redis_server.connect_both_up [OF assms] by blast
  obtain s2 where "Flush R \<lparr>DefaultDB = Some (unix_options 0), DBOne = Some (unix_options 1)\<rparr> s1
      = (Some None, s2)" "up s2" "members s2 = (\<lambda>_ _. {})"
    using redis_server.Flush_up [OF assms(1) 1(2)] by (metis Client.select_convs(1))
  with 1 show ?thesis by (simp add: Init_def CreateRedisClient_def)
qed

lemma unix_client_open:
  "client_open \<lparr>DefaultDB = Some (unix_options 0), DBOne = Some (unix_options 1)\<rparr>"
  by (simp add: client_open_def unix_options_def)

text \<open>
  C37. When the controller starts against a reachable Redis, \<open>Init\<close> returns a client with both
  connections open (database 0 and database 1) and leaves no stale data in any database.
\<close>

theorem Init_flushes:
  assumes "redis_server R members up" "up s"
  shows "\<exists>c s'. Init R s = (Some (Inr c), s') \<and> client_open c \<and> up s'
    \<and> members s' = (\<lambda>_ _. {})"
  using Init_result [OF assms] unix_client_open by blast

theorem Init_flushes_witness:
  "mem_up (mem_empty\<lparr>store := [((1, ''P+http://a/''), [''ns:svc:80''])]\<rparr>)
   \<and> (\<exists>c s'. Init mem_redis (mem_empty\<lparr>store := [((1, ''P+http://a/''), [''ns:svc:80''])]\<rparr>)
          = (Some (Inr c), s') \<and> client_open c \<and> mem_up s' \<and> mem_members s' = (\<lambda>_ _. {}))"
proof -
  have up: "mem_up (mem_empty\<lparr>store := [((1, ''P+http://a/''), [''ns:svc:80''])]\<rparr>)"
    by (simp add: mem_up_def mem_empty_def)
  show ?thesis by (rule conjI [OF up Init_flushes [OF mem.redis_server_axioms, OF up]])
qed

text \<open>
  C37. \<open>GetDBOneKeyValues\<close> returns exactly the routing table: one entry per key with members, the
  list of its members without repetition, and nothing else; the server is left as it was.
\<close>

theorem GetDBOneKeyValues_reads:
  assumes "redis_server R members up" "client_open c" "up s"
  shows "\<exists>kvm s'. GetDBOneKeyValues R c s = (Some kvm, s') \<and> up s' \<and> members s' = members s
    \<and> gm_wf kvm \<and> (\<forall>k. case gm_get kvm k of None \<Rightarrow> members s 1 k = {}
        | Some vs \<Rightarrow> vs \<noteq> [] \<and> distinct vs \<and> set vs = members s 1 k)"
proof -
  obtain h where h: "DBOne c = Some h" "DB h = 1"
    using assms(2) by (rule client_openE)
  from redis_server.get_key_values_up [OF assms(1,3), of h] show ?thesis
    unfolding GetDBOneKeyValues_def h .
qed

theorem GetDBOneKeyValues_reads_witness:
  "\<exists>kvm s'. GetDBOneKeyValues mem_redis mem_client mem_empty = (Some kvm, s') \<and> gm_wf kvm
     \<and> gm_get kvm ''k'' = None"
proof -
  have open_up: "client_open mem_client" "mem_up mem_empty" by simp_all
  obtain kvm s' where kvm: "GetDBOneKeyValues mem_redis mem_client mem_empty = (Some kvm, s')"
    "gm_wf kvm" and "\<forall>k. case gm_get kvm k of None \<Rightarrow> mem_members mem_empty 1 k = {}
        | Some vs \<Rightarrow> vs \<noteq> [] \<and> distinct vs \<and> set vs = mem_members mem_empty 1 k"
    using GetDBOneKeyValues_reads [OF mem.redis_server_axioms, OF open_up] by blast
  then have "gm_get kvm ''k'' = None"
    by (auto dest!: spec [of _ "''k''"] split: option.splits)
  with kvm show ?thesis by blast
qed

text \<open>
  C39. After \<open>Terminate\<close> every database is empty and both pointers of the client are nil, so any
  later command through it panics instead of writing to a closed connection.
\<close>

theorem Terminate_closes:
  assumes "redis_server R members up" "client_open c" "up s"
  shows "\<exists>c' s'. Terminate R c s = (Some c', s') \<and> members s' = (\<lambda>_ _. {})
    \<and> DefaultDBSAdd R c' k v t = Panic t \<and> DBOneSAdd R c' k v t = Panic t"
proof -
  obtain h0 h1 where h: "DefaultDB c = Some h0" "DBOne c = Some h1"
    using assms(2) by (rule client_openE)
  obtain s1 where "Flush R c s = (Some None, s1)" "members s1 = (\<lambda>_ _. {})"
    using redis_server.Flush_up [OF assms(1,3) h(1)] by blast
  with h redis_server.close [OF assms(1)] show ?thesis
    by (simp add: Terminate_def Close_def Let_def redis_wrapper_defs with_conn_def)
qed

theorem Terminate_closes_witness:
  "\<exists>c' s'. Terminate mem_redis mem_client mem_empty = (Some c', s')
     \<and> DBOneSAdd mem_redis c' ''k'' ''v'' s' = Panic s'"
proof -
  have open_up: "client_open mem_client" "mem_up mem_empty" by simp_all
  obtain c' s' where "Terminate mem_redis mem_client mem_empty = (Some c', s')"
    using Terminate_closes [OF mem.redis_server_axioms, OF open_up] by blast
  then show ?thesis
    using Terminate_closes [OF mem.redis_server_axioms, OF open_up, of "''k''" "''v''" s'] by auto
qed

end
