(* ===== verification/K8s_Objects.thy ===== *)
theory K8s_Objects
  imports Go_Prelude
begin

text \<open>
  The Kubernetes objects the handlers receive, with the fields the handlers read. The types are
  those of \<open>k8s.io/api\<close>; a Go pointer that may be nil is an option. The embedded
  \<open>ObjectMeta\<close> is the record the object types extend.

  An event handler receives an \<open>interface{}\<close>: \<open>k8s_obj\<close> has one constructor per dynamic
  type the handlers can meet. \<open>DeletedFinalStateUnknown\<close> is what client-go delivers to a delete
  handler when the watch missed the deletion: a key and the last known object.
\<close>

type_synonym int32 = "32 word"

record ObjectMeta =
  Name :: string
  Namespace :: string
  ResourceVersion :: string
  Annotations :: "(string, string) gomap"

section \<open>Ingress\<close>

text \<open>A path type is a string in the API; a path without one is a nil pointer.\<close>

type_synonym PathType = string

definition PathTypePrefix :: PathType where
  "PathTypePrefix = ''Prefix''"

definition PathTypeExact :: PathType where
  "PathTypeExact = ''Exact''"

record IngressServiceBackend =
  SvcName :: string
  PortNumber :: int32

record IngressBackend =
  Service :: "IngressServiceBackend option"

record HTTPIngressPath =
  Path :: string
  HTTPPathType :: "PathType option"
  Backend :: IngressBackend

record IngressRule =
  Host :: string
  HTTP :: "HTTPIngressPath list option"

record IngressTLS =
  Hosts :: "string list"

record IngressSpec =
  IngressClassName :: "string option"
  DefaultBackend :: "IngressBackend option"
  TLS :: "IngressTLS list"
  Rules :: "IngressRule list"

record Ingress = ObjectMeta +
  Spec :: IngressSpec

section \<open>Endpoints\<close>

record EndpointAddress =
  IP :: string

record EndpointPort =
  PortName :: string
  Port :: int32

record EndpointSubset =
  Addresses :: "EndpointAddress list"
  Ports :: "EndpointPort list"

record Endpoints = ObjectMeta +
  Subsets :: "EndpointSubset list"

section \<open>ConfigMap\<close>

record ConfigMap = ObjectMeta +
  Data :: "(string, string) gomap"

section \<open>Unstructured objects\<close>

text \<open>
  The custom resources arrive as decoded JSON. \<open>JMap\<close> is a \<open>map[string]interface{}\<close>,
  \<open>JSlice\<close> a \<open>[]interface{}\<close>; a JSON float is kept as its text.
\<close>

datatype json =
    JNull
  | JBool bool
  | JInt int
  | JFloat string
  | JString string
  | JSlice "json list"
  | JMap "(string \<times> json) list"

text \<open>The type assertions \<open>v.(string)\<close> and \<open>v.(map[string]interface{})\<close>.\<close>

fun as_string :: "json option \<Rightarrow> string option" where
  "as_string (Some (JString s)) = Some s"
| "as_string _ = None"

fun as_map :: "json \<Rightarrow> (string, json) gomap option" where
  "as_map (JMap m) = Some m"
| "as_map _ = None"

lemma as_string_Some [simp]: "as_string v = Some s \<longleftrightarrow> v = Some (JString s)"
  by (cases v rule: as_string.cases) auto

lemma as_map_Some [simp]: "as_map v = Some m \<longleftrightarrow> v = JMap m"
  by (cases v) auto

record Unstructured = ObjectMeta +
  Object :: "(string, json) gomap"

datatype k8s_obj =
    IngressObj Ingress
  | EndpointsObj Endpoints
  | ConfigMapObj ConfigMap
  | UnstructuredObj Unstructured
  | DeletedFinalStateUnknown string k8s_obj
  | OtherObj

text \<open>The type assertions on an event's object.\<close>

fun as_ingress :: "k8s_obj \<Rightarrow> Ingress option" where
  "as_ingress (IngressObj i) = Some i"
| "as_ingress _ = None"

fun as_endpoints :: "k8s_obj \<Rightarrow> Endpoints option" where
  "as_endpoints (EndpointsObj e) = Some e"
| "as_endpoints _ = None"

fun as_configmap :: "k8s_obj \<Rightarrow> ConfigMap option" where
  "as_configmap (ConfigMapObj c) = Some c"
| "as_configmap _ = None"

fun as_unstructured :: "k8s_obj \<Rightarrow> Unstructured option" where
  "as_unstructured (UnstructuredObj u) = Some u"
| "as_unstructured _ = None"

text \<open>
  \<open>unstructured.NestedSlice\<close> and \<open>unstructured.NestedMap\<close> of apimachinery are parameters of
  the handlers that use them; their result is the value, not found, or an error.
\<close>

datatype 'a nested = Found 'a | NotFound | NestedError string

record unstructured_lib =
  NestedSlice :: "(string, json) gomap \<Rightarrow> string list \<Rightarrow> json list nested"
  NestedMap :: "(string, json) gomap \<Rightarrow> string list \<Rightarrow> (string, json) gomap nested"

text \<open>A decimal port number as the code prints it.\<close>

definition port_string :: "int32 \<Rightarrow> string" where
  "port_string p = itoa (sint p)"

lemma port_string_inj: "port_string p = port_string q \<longleftrightarrow> p = q"
  unfolding port_string_def itoa_inj by (rule word_eq_iff_signed [symmetric])

lemma port_string_no_special: "CHR '':'' \<notin> set (port_string p)" "CHR ''#'' \<notin> set (port_string p)"
  by (simp_all add: port_string_def itoa_no_special)

end
