(* ===== verification/Util.thy ===== *)
theory Util
  imports K8s_Objects
begin

text \<open>
  \<open>util/util.go\<close>: the strings under which the routing information is stored, the readers of
  annotations and of the ingress class, and the comparison helpers of the tests.
\<close>

section \<open>Keys and values of the routing table\<close>

definition AnnotationServerSnippet :: string where
  "AnnotationServerSnippet = ''ats.ingress.kubernetes.io/server-snippet''"

definition AnnotationIngressClass :: string where
  "AnnotationIngressClass = ''kubernetes.io/ingress.class''"

definition ConstructHostPathString :: "string \<Rightarrow> string \<Rightarrow> string \<Rightarrow> PathType \<Rightarrow> string" where
  "ConstructHostPathString scheme host path pathType =
     (let path = (if path = [] then ''/'' else path) in
      if pathType = PathTypePrefix then ''P+'' @ scheme @ ''://'' @ host @ path
      else ''E+'' @ scheme @ ''://'' @ host @ path)"

definition ConstructSvcPortString :: "string \<Rightarrow> string \<Rightarrow> string \<Rightarrow> string" where
  "ConstructSvcPortString namespace svc port = namespace @ '':'' @ svc @ '':'' @ port"

definition ConstructIPPortString :: "string \<Rightarrow> string \<Rightarrow> string \<Rightarrow> string" where
  "ConstructIPPortString ip port protocol =
     (let protocol = (if protocol \<noteq> ''https'' then ''http'' else protocol) in
      ip @ ''#'' @ port @ ''#'' @ protocol)"

definition ConstructNameVersionString :: "string \<Rightarrow> string \<Rightarrow> string \<Rightarrow> string" where
  "ConstructNameVersionString namespace name version =
     ''$'' @ namespace @ ''/'' @ name @ ''/'' @ version"

text \<open>
  While an update builds the new members of a key it keeps them under a temporary key, the key
  with the prefix \<open>temp_\<close>.
\<close>

definition temp_key :: "string \<Rightarrow> string" where
  "temp_key k = ''temp_'' @ k"

section \<open>Annotations and ingress class\<close>

definition ExtractServerSnippet :: "(string, string) gomap \<Rightarrow> string with_error" where
  "ExtractServerSnippet ann =
     (case gm_get ann AnnotationServerSnippet of
        None \<Rightarrow> ([], Some (''missing annotation '' @ CHR 0x27 # AnnotationServerSnippet @ [CHR 0x27]))
      | Some server_snippet \<Rightarrow> (server_snippet, None))"

definition ExtractIngressClass :: "(string, string) gomap \<Rightarrow> string with_error" where
  "ExtractIngressClass ann =
     (case gm_get ann AnnotationIngressClass of
        None \<Rightarrow> ([], Some (''missing annotation '' @ CHR 0x27 # AnnotationIngressClass @ [CHR 0x27]))
      | Some ingress_class \<Rightarrow> (ingress_class, None))"

definition ExtractIngressClassName :: "k8s_obj \<Rightarrow> string with_error" where
  "ExtractIngressClassName obj =
     (case as_ingress obj of
        None \<Rightarrow> ([], Some ''extracting ingress class name; cannot cast to *nv1.Ingress'')
      | Some ingressObj \<Rightarrow>
          (case IngressClassName (Spec ingressObj) of
             None \<Rightarrow> ([], Some ''extracting ingress class name; missing the field'')
           | Some class \<Rightarrow> (class, None)))"

section \<open>Slices and maps\<close>

text \<open>The loop of \<open>ReverseSlice\<close> swaps in place while the two indices have not met.\<close>

function reverse_loop :: "'a list \<Rightarrow> int \<Rightarrow> int \<Rightarrow> 'a list" where
  "reverse_loop s i j =
     (if i < j
      then reverse_loop (s[nat i := s ! nat j, nat j := s ! nat i]) (i + 1) (j - 1)
      else s)"
  by pat_completeness auto
termination
  by (relation "measure (\<lambda>(s, i, j). nat (j - i))") auto

declare reverse_loop.simps [simp del]

definition ReverseSlice :: "string list \<Rightarrow> string list" where
  "ReverseSlice s = reverse_loop s 0 (int (length s) - 1)"

text \<open>
  \<open>IsSameSlice\<close> counts the strings of the first slice in a map and takes the second slice
  away; a string without a count ends the function early.
\<close>

fun count_strings :: "(string, int) gomap \<Rightarrow> string list \<Rightarrow> (string, int) gomap" where
  "count_strings diff [] = diff"
| "count_strings diff (x # xs) =
     count_strings (gm_set x ((case gm_get diff x of None \<Rightarrow> 0 | Some n \<Rightarrow> n) + 1) diff) xs"

fun take_strings :: "(string, int) gomap \<Rightarrow> string list \<Rightarrow> (string, int) gomap option" where
  "take_strings diff [] = Some diff"
| "take_strings diff (y # ys) =
     (case gm_get diff y of
        None \<Rightarrow> None
      | Some n \<Rightarrow>
          (let diff = gm_set y (n - 1) diff in
           if n - 1 = 0 then take_strings (gm_delete y diff) ys else take_strings diff ys))"

definition IsSameSlice :: "string list \<Rightarrow> string list \<Rightarrow> bool" where
  "IsSameSlice x y =
     (if length x \<noteq> length y then False
      else (case take_strings (count_strings [] x) y of
              None \<Rightarrow> False
            | Some diff \<Rightarrow> length diff = 0))"

text \<open>
  \<open>IsSameMap\<close> ranges over both maps to collect the keys and over the first to compare the
  values. \<open>ordx\<close>, \<open>ordy\<close> and \<open>ordv\<close> are the orders of the three loops.
\<close>

definition IsSameMap ::
    "((string \<times> string list) list \<Rightarrow> (string \<times> string list) list) \<Rightarrow>
     ((string \<times> string list) list \<Rightarrow> (string \<times> string list) list) \<Rightarrow>
     ((string \<times> string list) list \<Rightarrow> (string \<times> string list) list) \<Rightarrow>
     (string, string list) gomap \<Rightarrow> (string, string list) gomap \<Rightarrow> bool" where
  "IsSameMap ordx ordy ordv x y =
     (if length x \<noteq> length y then False
      else if \<not> IsSameSlice (map fst (ordx x)) (map fst (ordy y)) then False
      else list_all (\<lambda>k. IsSameSlice
             (case gm_get x k of None \<Rightarrow> [] | Some v \<Rightarrow> v)
             (case gm_get y k of None \<Rightarrow> [] | Some v \<Rightarrow> v)) (map fst (ordv x)))"

section \<open>Comparison helpers are order-insensitive\<close>

text \<open>The map \<open>diff\<close> represents a multiset: no key has count 0.\<close>

definition counts :: "(string, int) gomap \<Rightarrow> string multiset \<Rightarrow> bool" where
  "counts diff M \<longleftrightarrow>
     (\<forall>k. gm_get diff k = (if k \<in># M then Some (int (count M k)) else None))"

lemma counts_empty: "counts [] {#}"
  by (simp add: counts_def)

lemma counts_add:
  "counts diff M \<Longrightarrow>
   counts (gm_set x ((case gm_get diff x of None \<Rightarrow> 0 | Some n \<Rightarrow> n) + 1) diff) (add_mset x M)"
  by (auto simp: counts_def gm_get_set not_in_iff split: option.splits if_splits)

lemma counts_take:
  assumes "counts diff M" "gm_get diff y = Some n"
  shows "y \<in># M" and "n - 1 = 0 \<Longrightarrow> counts (gm_delete y (gm_set y (n - 1) diff)) (M - {#y#})"
    and "n - 1 \<noteq> 0 \<Longrightarrow> counts (gm_set y (n - 1) diff) (M - {#y#})"
proof -
  from assms have y: "y \<in># M" "n = int (count M y)"
    by (auto simp: counts_def split: if_splits)
  show "y \<in># M" by fact
  have k: "k \<in># M - {#y#} \<longleftrightarrow> (if k = y then count M y \<noteq> 1 else k \<in># M)" for k
    using y(1) by (auto simp: in_diff_count Suc_lessI)
  show "n - 1 = 0 \<Longrightarrow> counts (gm_delete y (gm_set y (n - 1) diff)) (M - {#y#})"
    "n - 1 \<noteq> 0 \<Longrightarrow> counts (gm_set y (n - 1) diff) (M - {#y#})"
    using assms(1) y by (auto simp: counts_def gm_get_set gm_get_delete k of_nat_diff)
qed

lemma count_strings_counts: "counts diff M \<Longrightarrow> counts (count_strings diff xs) (M + mset xs)"
proof (induction xs arbitrary: diff M)
  case (Cons x xs)
  from Cons.IH [OF counts_add [OF Cons.prems], of x] show ?case by simp
qed simp

lemma take_strings_counts:
  assumes "counts diff M"
  shows "case take_strings diff ys of None \<Rightarrow> \<not> mset ys \<subseteq># M
    | Some diff' \<Rightarrow> mset ys \<subseteq># M \<and> counts diff' (M - mset ys)"
  using assms
proof (induction ys arbitrary: diff M)
  case Nil
  then show ?case by simp
next
  case (Cons y ys)
  show ?case
  proof (cases "gm_get diff y")
    case None
    with Cons.prems have "y \<notin># M" by (auto simp: counts_def count_eq_zero_iff split: if_splits)
    with None show ?thesis by (auto dest: mset_subset_eqD)
  next
    case (Some n)
    note t = counts_take [OF Cons.prems Some]
    obtain diff' where d: "counts diff' (M - {#y#})"
      "take_strings diff (y # ys) = take_strings diff' ys"
      using t(2,3) Some by (cases "n - 1 = 0") (auto simp: Let_def)
    have "mset (y # ys) \<subseteq># M \<longleftrightarrow> mset ys \<subseteq># M - {#y#}"
      using t(1) by (simp add: insert_subset_eq_iff)
    with Cons.IH [OF d(1)] show ?thesis unfolding d(2) by (auto split: option.splits)
  qed
qed

lemma counts_length_0: "counts diff M \<Longrightarrow> length diff = 0 \<longleftrightarrow> M = {#}"
proof
  assume c: "counts diff M"
  show "M = {#}" if "length diff = 0"
    using c that by (auto simp: counts_def multiset_eq_iff split: if_splits)
  show "length diff = 0" if "M = {#}"
  proof -
    have "gm_get diff = Map.empty" by (rule ext) (use c that in \<open>simp add: counts_def\<close>)
    then show ?thesis by (simp add: map_of_eq_empty_iff)
  qed
qed

lemma IsSameSlice_iff: "IsSameSlice x y \<longleftrightarrow> mset x = mset y"
proof (cases "length x = length y")
  case False
  then show ?thesis by (auto simp: IsSameSlice_def dest: mset_eq_length)
next
  case len: True
  have c: "counts (count_strings [] x) (mset x)"
    using count_strings_counts [OF counts_empty, of x] by simp
  show ?thesis
  proof (cases "take_strings (count_strings [] x) y")
    case None
    with take_strings_counts [OF c, of y] have "\<not> mset y \<subseteq># mset x" by simp
    with None len show ?thesis by (auto simp: IsSameSlice_def)
  next
    case (Some diff)
    with take_strings_counts [OF c, of y]
    have s: "mset y \<subseteq># mset x" "counts diff (mset x - mset y)" by simp_all
    from s(2) have "length diff = 0 \<longleftrightarrow> mset x - mset y = {#}" by (rule counts_length_0)
    with s(1) have "length diff = 0 \<longleftrightarrow> mset x = mset y"
      by (metis Diff_eq_empty_iff_mset subset_mset.antisym subset_mset.order_refl)
    with Some len show ?thesis by (simp add: IsSameSlice_def)
  qed
qed

text \<open>
  C38. \<open>IsSameMap\<close> answers whether two maps have the same keys and, under each key, the same
  strings with the same number of occurrences; the orders of its three \<open>range\<close> loops and of
  the slices do not matter.
\<close>

theorem IsSameMap_correct:
  assumes "range_order ordx" "range_order ordy" "range_order ordv" "gm_wf x" "gm_wf y"
  shows "IsSameMap ordx ordy ordv x y \<longleftrightarrow>
    (\<forall>k. map_option mset (gm_get x k) = map_option mset (gm_get y k))"
proof -
  have keys: "mset (map fst (ordx x)) = mset (map fst x)" "mset (map fst (ordy y)) = mset (map fst y)"
    "set (map fst (ordv x)) = fst ` set x"
    using assms(1-3) by (simp_all add: range_order_def range_order_set)
  have dom_eq: "mset (map fst x) = mset (map fst y) \<longleftrightarrow> fst ` set x = fst ` set y"
    using assms(4,5) by (metis gm_wf_def set_eq_iff_mset_eq_distinct set_map)
  have len: "length x = length y" if "fst ` set x = fst ` set y"
    using that dom_eq by (metis length_map mset_eq_length)
  have "IsSameMap ordx ordy ordv x y \<longleftrightarrow> fst ` set x = fst ` set y \<and>
      (\<forall>k \<in> fst ` set x. mset (case gm_get x k of None \<Rightarrow> [] | Some v \<Rightarrow> v)
         = mset (case gm_get y k of None \<Rightarrow> [] | Some v \<Rightarrow> v))"
    unfolding IsSameMap_def IsSameSlice_iff list_all_iff keys dom_eq
    using len by (cases "fst ` set x = fst ` set y") (simp_all only: if_False if_True simp_thms if_cancel)
  also have "\<dots> \<longleftrightarrow> (\<forall>k. map_option mset (gm_get x k) = map_option mset (gm_get y k))"
    (is "?l \<longleftrightarrow> ?r")
  proof
    assume l: ?l
    show ?r
    proof
      fix k
      show "map_option mset (gm_get x k) = map_option mset (gm_get y k)"
      proof (cases "k \<in> fst ` set x")
        case True
        with l obtain u v where "gm_get x k = Some u" "gm_get y k = Some v"
          by (metis map_of_eq_None_iff not_None_eq)
        moreover from l True have "mset (case gm_get x k of None \<Rightarrow> [] | Some v \<Rightarrow> v)
            = mset (case gm_get y k of None \<Rightarrow> [] | Some v \<Rightarrow> v)" by (rule conjunct2 [THEN bspec])
        ultimately show ?thesis by simp
      next
        case False
        with l show ?thesis by (metis map_of_eq_None_iff)
      qed
    qed
  next
    assume r: ?r
    then have "gm_get x k = None \<longleftrightarrow> gm_get y k = None" for k by (metis option.map_disc_iff)
    then have "dom (gm_get x) = dom (gm_get y)" by (simp add: dom_def)
    then have "fst ` set x = fst ` set y" unfolding dom_map_of_conv_image_fst .
    moreover have "mset (case gm_get x k of None \<Rightarrow> [] | Some v \<Rightarrow> v)
        = mset (case gm_get y k of None \<Rightarrow> [] | Some v \<Rightarrow> v)" for k
      using r [rule_format, of k] by (auto split: option.splits)
    ultimately show ?l by blast
  qed
  finally show ?thesis .
qed

theorem IsSameMap_correct_witness:
  "IsSameMap rev (\<lambda>m. m) (\<lambda>m. m) [(''a'', [''1'', ''2'']), (''b'', [])] [(''b'', []), (''a'', [''2'', ''1''])]
   \<and> \<not> IsSameMap rev (\<lambda>m. m) rev [(''a'', [''1''])] [(''a'', [''1'', ''1''])]"
proof -
  have wf: "gm_wf [(''a'', [''1'', ''2'']), (''b'', [])]" "gm_wf [(''b'', []), (''a'', [''2'', ''1''])]"
    "gm_wf [(''a'', [''1''])]" "gm_wf [(''a'', [''1'', ''1''])]"
    by (simp_all add: gm_wf_def)
  show ?thesis
    unfolding IsSameMap_correct [OF range_order_id(2) range_order_id(1) range_order_id(1) wf(1,2)]
      IsSameMap_correct [OF range_order_id(2) range_order_id(1) range_order_id(2) wf(3,4)]
    by (auto intro: exI [of _ "''a''"])
qed

section \<open>Reversal\<close>

lemma reverse_loop_nth:
  assumes "0 \<le> i" "j = int (length s) - 1 - i" "i \<le> j + 1"
  shows "length (reverse_loop s i j) = length s \<and>
    (\<forall>k < length s. reverse_loop s i j ! k =
       (if i \<le> int k \<and> int k \<le> j then s ! (length s - 1 - k) else s ! k))"
  using assms
proof (induction s i j rule: reverse_loop.induct)
  case (1 s i j)
  show ?case
  proof (cases "i < j")
    case False
    have "s ! k = s ! (length s - 1 - k)" if "i \<le> int k" "int k \<le> j" for k
    proof -
      from that False "1.prems" have "length s - 1 - k = k" by linarith
      then show ?thesis by simp
    qed
    moreover have "reverse_loop s i j = s" using False by (simp add: reverse_loop.simps [of s i j])
    ultimately show ?thesis by auto
  next
    case True
    let ?s = "s[nat i := s ! nat j, nat j := s ! nat i]"
    have IH: "length (reverse_loop ?s (i + 1) (j - 1)) = length ?s \<and>
      (\<forall>k < length ?s. reverse_loop ?s (i + 1) (j - 1) ! k =
        (if i + 1 \<le> int k \<and> int k \<le> j - 1 then ?s ! (length ?s - 1 - k) else ?s ! k))"
      using "1.IH" [OF True] "1.prems" True by simp
    have step: "reverse_loop s i j = reverse_loop ?s (i + 1) (j - 1)"
      using True by (simp add: reverse_loop.simps [of s i j])
    have "reverse_loop s i j ! k =
        (if i \<le> int k \<and> int k \<le> j then s ! (length s - 1 - k) else s ! k)" if "k < length s" for k
    proof -
      obtain a b where ab: "i = int a" "j = int b"
        using "1.prems" True by (metis nonneg_int_cases order.trans order_less_imp_le)
      with "1.prems" True have l: "a < b" "length s = a + b + 1" by linarith+
      have s: "reverse_loop s i j ! k = (if a < k \<and> k < b
          then ?s ! (length s - 1 - k) else ?s ! k)"
        unfolding step using IH that ab by simp
      consider "k = a" | "k = b" | "a < k" "k < b" | "k < a \<or> b < k" by linarith
      then show ?thesis
        by cases (use s ab l that in \<open>auto simp: nth_list_update\<close>)
    qed
    moreover have "length (reverse_loop s i j) = length s" unfolding step using IH by simp
    ultimately show ?thesis by blast
  qed
qed

text \<open>C21. The in-place loop of \<open>ReverseSlice\<close> ends and reverses the slice, for every length.\<close>

theorem ReverseSlice_rev: "ReverseSlice s = rev s"
proof (rule nth_equalityI)
  have r: "length (reverse_loop s 0 (int (length s) - 1)) = length s \<and>
    (\<forall>k < length s. reverse_loop s 0 (int (length s) - 1) ! k =
       (if 0 \<le> int k \<and> int k \<le> int (length s) - 1 then s ! (length s - 1 - k) else s ! k))"
    by (rule reverse_loop_nth) auto
  then show "length (ReverseSlice s) = length (rev s)" by (simp add: ReverseSlice_def)
  fix k
  assume "k < length (ReverseSlice s)"
  with r show "ReverseSlice s ! k = rev s ! k"
    by (simp add: ReverseSlice_def rev_nth Suc_eq_plus1_left)
qed

section \<open>The keys determine what they were built from\<close>

named_theorems key_facts \<open>key spaces: host paths, snippet keys, temporary keys\<close>

definition is_temp :: "string \<Rightarrow> bool" where
  "is_temp k = prefix ''temp_'' k"

lemma is_temp_temp_key [key_facts, simp]: "is_temp (temp_key k)"
  by (simp add: is_temp_def temp_key_def)

lemma temp_key_inj [simp]: "temp_key k = temp_key l \<longleftrightarrow> k = l"
  by (simp add: temp_key_def)

lemma is_temp_iff: "is_temp k \<longleftrightarrow> (\<exists>l. k = temp_key l)"
  by (auto simp: is_temp_def temp_key_def prefix_def)

lemma hostpath_shape:
  "ConstructHostPathString scheme host path pathType =
     (if pathType = PathTypePrefix then ''P'' else ''E'') @ ''+'' @ scheme @ ''://'' @ host
       @ (if path = [] then ''/'' else path)"
  by (simp add: ConstructHostPathString_def)

lemma hostpath_not_temp [key_facts, simp]:
  "\<not> is_temp (ConstructHostPathString scheme host path pathType)"
  by (simp add: hostpath_shape is_temp_def)

lemma nameversion_not_temp [key_facts, simp]: "\<not> is_temp (ConstructNameVersionString ns n v)"
  by (simp add: ConstructNameVersionString_def is_temp_def)

lemma nameversion_not_hostpath [key_facts, simp]:
  "ConstructNameVersionString ns n v \<noteq> ConstructHostPathString scheme host path pathType"
  "ConstructHostPathString scheme host path pathType \<noteq> ConstructNameVersionString ns n v"
  by (simp_all add: ConstructNameVersionString_def hostpath_shape)

lemma ConstructNameVersionString_inj:
  assumes "CHR ''/'' \<notin> set ns" "CHR ''/'' \<notin> set ns'" "CHR ''/'' \<notin> set n" "CHR ''/'' \<notin> set n'"
  shows "ConstructNameVersionString ns n v = ConstructNameVersionString ns' n' v'
    \<longleftrightarrow> ns = ns' \<and> n = n' \<and> v = v'"
  using append_sep_inj [OF assms(1,2)] append_sep_inj [OF assms(3,4)]
  by (simp add: ConstructNameVersionString_def)

text \<open>
  C40. A routing key determines its scheme, its host, its path and whether it is a prefix rule, for
  the schemes the controller writes, hosts without a slash and paths that are empty or start with
  one: two different rules never share a key.
\<close>

theorem ConstructHostPathString_inj:
  assumes "scheme \<in> {''http'', ''https''}" "scheme' \<in> {''http'', ''https''}"
    and "CHR ''/'' \<notin> set host" "CHR ''/'' \<notin> set host'"
    and "path = [] \<or> hd path = CHR ''/''" "path' = [] \<or> hd path' = CHR ''/''"
  shows "ConstructHostPathString scheme host path t = ConstructHostPathString scheme' host' path' t'
    \<longleftrightarrow> (t = PathTypePrefix \<longleftrightarrow> t' = PathTypePrefix) \<and> scheme = scheme' \<and> host = host'
      \<and> (if path = [] then ''/'' else path) = (if path' = [] then ''/'' else path')"
proof -
  obtain p p' where p: "(if path = [] then ''/'' else path) = CHR ''/'' # p"
    "(if path' = [] then ''/'' else path') = CHR ''/'' # p'"
    using assms(5,6) by (cases path; cases path') auto
  have "scheme @ CHR '':'' # x = scheme' @ CHR '':'' # y \<longleftrightarrow> scheme = scheme' \<and> x = y" for x y
    by (rule append_sep_inj) (use assms(1,2) in auto)
  then show ?thesis
    unfolding hostpath_shape p using append_sep_inj [OF assms(3,4)] by auto
qed

theorem ConstructHostPathString_inj_witness:
  "(ConstructHostPathString ''http'' ''*'' [] PathTypePrefix
      = ConstructHostPathString ''http'' ''*'' ''/'' ''Prefix'')
   \<and> (ConstructHostPathString ''http'' ''a.com'' ''/b'' PathTypeExact
      \<noteq> ConstructHostPathString ''http'' ''a.com'' ''/b'' PathTypePrefix)"
proof -
  have s: "''http'' \<in> {''http'', ''https''}" by simp
  have h: "CHR ''/'' \<notin> set ''*''" "CHR ''/'' \<notin> set ''a.com''" by simp_all
  have p: "[] = [] \<or> hd [] = CHR ''/''" "''/'' = [] \<or> hd ''/'' = CHR ''/''"
    "''/b'' = [] \<or> hd ''/b'' = CHR ''/''" by simp_all
  show ?thesis
    unfolding ConstructHostPathString_inj [OF s s h(1) h(1) p(1) p(2)]
      ConstructHostPathString_inj [OF s s h(2) h(2) p(3) p(3)]
    by (simp add: PathTypePrefix_def PathTypeExact_def)
qed

text \<open>
  C33. The value \<open>namespace:service:port\<close> determines its three parts when the two names contain no
  colon (Kubernetes names never do); the port may be any 32-bit number.
\<close>

theorem ConstructSvcPortString_inj:
  assumes "CHR '':'' \<notin> set ns" "CHR '':'' \<notin> set ns'" "CHR '':'' \<notin> set svc" "CHR '':'' \<notin> set svc'"
  shows "ConstructSvcPortString ns svc (port_string p) = ConstructSvcPortString ns' svc' (port_string p')
    \<longleftrightarrow> ns = ns' \<and> svc = svc' \<and> p = p'"
  using append_sep_inj [OF assms(1,2)] append_sep_inj [OF assms(3,4)]
  by (simp add: ConstructSvcPortString_def port_string_inj)

theorem ConstructSvcPortString_inj_witness:
  "ConstructSvcPortString ''ns'' ''a'' (port_string 80) \<noteq> ConstructSvcPortString ''ns'' ''a'' (port_string 8080)"
proof -
  have n: "CHR '':'' \<notin> set ''ns''" "CHR '':'' \<notin> set ''a''" by simp_all
  show ?thesis
    unfolding ConstructSvcPortString_inj [OF n(1) n(1) n(2) n(2)] by simp
qed

lemma ConstructIPPortString_fields:
  assumes "CHR ''#'' \<notin> set ip"
  shows "split_on (CHR ''#'') (ConstructIPPortString ip (port_string p) name)
    = [ip, port_string p, if name = ''https'' then ''https'' else ''http'']"
  using assms port_string_no_special(2) [of p]
  by (simp add: ConstructIPPortString_def Let_def split_on_append)

text \<open>
  C34. Splitting an endpoint string at its \<open>#\<close> gives back exactly three fields: the address, the port
  and the protocol, which is https for a port named https and http otherwise.
\<close>

theorem ConstructIPPortString_split:
  assumes "CHR ''#'' \<notin> set ip"
  shows "split_on (CHR ''#'') (ConstructIPPortString ip (port_string p) name)
    = [ip, port_string p, if name = ''https'' then ''https'' else ''http'']"
  by (rule ConstructIPPortString_fields [OF assms])

theorem ConstructIPPortString_split_witness:
  "split_on (CHR ''#'') (ConstructIPPortString ''10.0.0.1'' (port_string 8443) ''web'')
    = [''10.0.0.1'', port_string 8443, ''http'']"
  using ConstructIPPortString_split [of "''10.0.0.1''" 8443 "''web''"] by simp

end
