(* ===== verification/Namespace.thy ===== *)
theory Namespace
  imports Go_Prelude
begin

text \<open>
  \<open>namespace/namespace.go\<close> and the part of \<open>main/main.go\<close> that turns the two namespace flags
  into a namespace manager: which namespaces the controller watches.
\<close>

section \<open>The namespace manager\<close>

definition ALL_namespaces :: string where
  "ALL_namespaces = ''all''"

record NsManager =
  NamespaceMap :: "(string, bool) gomap"
  IgnoreNamespaceMap :: "(string, bool) gomap"
  allNamespaces :: bool

definition IncludeNamespace :: "NsManager \<Rightarrow> string \<Rightarrow> bool" where
  "IncludeNamespace m n =
     (if allNamespaces m then \<not> gm_has (IgnoreNamespaceMap m) n
      else (let ns_prs = gm_has (NamespaceMap m) n;
                ins_prs = gm_has (IgnoreNamespaceMap m) n
            in if ns_prs \<and> \<not> ins_prs then ns_prs else False))"

definition NsManager_Init :: "NsManager \<Rightarrow> NsManager" where
  "NsManager_Init m =
     (if length (NamespaceMap m) = 0 then m\<lparr>allNamespaces := True\<rparr>
      else m\<lparr>allNamespaces := False\<rparr>)"

definition DisableAllNamespaces :: "NsManager \<Rightarrow> NsManager" where
  "DisableAllNamespaces m = m\<lparr>allNamespaces := False\<rparr>"

section \<open>The flags\<close>

text \<open>
  \<open>strings.ToLower\<close> maps an ASCII string byte by byte. On a string with other bytes it uses the
  Unicode tables, which are the parameter \<open>unicode_lower\<close>.
\<close>

definition ascii_lower :: "char \<Rightarrow> char" where
  "ascii_lower c =
     (if 65 \<le> (of_char c :: nat) \<and> (of_char c :: nat) \<le> 90 then char_of (of_char c + 32 :: nat) else c)"

definition ToLower :: "(string \<Rightarrow> string) \<Rightarrow> string \<Rightarrow> string" where
  "ToLower unicode_lower s =
     (if list_all (\<lambda>c. (of_char c :: nat) < 128) s then map ascii_lower s else unicode_lower s)"

text \<open>A flag's value: lower case, blanks removed, split at the commas, empty parts skipped.\<close>

definition namespace_list :: "(string \<Rightarrow> string) \<Rightarrow> string \<Rightarrow> string list" where
  "namespace_list U flag = split_on (CHR '','') (filter (\<lambda>c. c \<noteq> CHR '' '') (ToLower U flag))"

definition add_namespaces :: "string list \<Rightarrow> (string, bool) gomap \<Rightarrow> (string, bool) gomap" where
  "add_namespaces ns m = fold (\<lambda>n m. if n \<noteq> [] then gm_set n True m else m) ns m"

definition main_namespaceMap :: "(string \<Rightarrow> string) \<Rightarrow> string \<Rightarrow> (string, bool) gomap" where
  "main_namespaceMap U namespaces =
     (if namespaces \<noteq> ALL_namespaces then add_namespaces (namespace_list U namespaces) [] else [])"

definition main_ignoreNamespaceMap :: "(string \<Rightarrow> string) \<Rightarrow> string \<Rightarrow> (string, bool) gomap" where
  "main_ignoreNamespaceMap U ignoreNamespaces =
     (if ignoreNamespaces \<noteq> [] then add_namespaces (namespace_list U ignoreNamespaces) [] else [])"

definition main_nsManager :: "(string \<Rightarrow> string) \<Rightarrow> string \<Rightarrow> string \<Rightarrow> NsManager" where
  "main_nsManager U namespaces ignoreNamespaces =
     NsManager_Init \<lparr>NamespaceMap = main_namespaceMap U namespaces,
       IgnoreNamespaceMap = main_ignoreNamespaceMap U ignoreNamespaces, allNamespaces = False\<rparr>"

section \<open>Which namespaces are watched\<close>

lemma IncludeNamespace_iff:
  "IncludeNamespace m n \<longleftrightarrow>
     (allNamespaces m \<or> gm_has (NamespaceMap m) n) \<and> \<not> gm_has (IgnoreNamespaceMap m) n"
  by (auto simp: IncludeNamespace_def Let_def)

lemma gm_has_add_namespaces:
  "gm_has (add_namespaces ns m) n \<longleftrightarrow> n \<in> set ns - {[]} \<or> gm_has m n"
  unfolding add_namespaces_def
  by (induction ns arbitrary: m) (auto simp: gm_has_iff gm_keys_set)

lemma gm_has_Nil [simp]: "\<not> gm_has [] n"
  by (simp add: gm_has_def)

lemma gm_empty_iff: "m = [] \<longleftrightarrow> (\<forall>n. \<not> gm_has m n)"
  unfolding gm_has_iff by (cases m) auto

lemma add_namespaces_empty: "add_namespaces ns [] = [] \<longleftrightarrow> set ns \<subseteq> {[]}"
  unfolding gm_empty_iff gm_has_add_namespaces by auto

text \<open>
  C39. The namespace filter the flags produce: a namespace is watched when it is listed in
  \<open>--namespaces\<close> (or that flag is \<open>all\<close>, or lists nothing) and is not listed in
  \<open>--ignoreNamespaces\<close>; lists are read in lower case, without blanks and empty parts.
\<close>

theorem main_namespace_filter:
  "IncludeNamespace (main_nsManager U namespaces ignored) n \<longleftrightarrow>
     (namespaces = ALL_namespaces \<or> set (namespace_list U namespaces) \<subseteq> {[]}
        \<or> n \<noteq> [] \<and> n \<in> set (namespace_list U namespaces))
     \<and> \<not> (ignored \<noteq> [] \<and> n \<noteq> [] \<and> n \<in> set (namespace_list U ignored))"
proof -
  have ns: "gm_has (main_namespaceMap U namespaces) n \<longleftrightarrow>
      namespaces \<noteq> ALL_namespaces \<and> n \<noteq> [] \<and> n \<in> set (namespace_list U namespaces)"
    by (auto simp: main_namespaceMap_def gm_has_add_namespaces)
  have all: "main_namespaceMap U namespaces = [] \<longleftrightarrow>
      namespaces = ALL_namespaces \<or> set (namespace_list U namespaces) \<subseteq> {[]}"
    by (auto simp: main_namespaceMap_def add_namespaces_empty)
  have ign: "gm_has (main_ignoreNamespaceMap U ignored) n \<longleftrightarrow>
      ignored \<noteq> [] \<and> n \<noteq> [] \<and> n \<in> set (namespace_list U ignored)"
    by (auto simp: main_ignoreNamespaceMap_def gm_has_add_namespaces)
  show ?thesis
    unfolding main_nsManager_def NsManager_Init_def IncludeNamespace_iff
    using ns all ign by auto
qed

end
