(* ===== verification/Proxy.thy ===== *)
theory Proxy
  imports Go_Prelude
begin

text \<open>
  \<open>proxy/ats.go\<close> and \<open>proxy/fakeATS.go\<close>: the managers through which the controller configures
  Apache Traffic Server. The real manager runs the program \<open>traffic_ctl\<close>; running a program is
  the parameter \<open>run\<close>, a function from the command line and the state of the world to the
  combined output or an error, and the next state. The fake manager of the tests keeps the
  configuration in a map.
\<close>

record ATSManager =
  ATSNamespace :: string
  IngressClass :: string

record FakeATSManager = ATSManager +
  Config :: "(string, string) gomap"

text \<open>A value of the interface type \<open>ATSManagerInterface\<close> is one of its two implementations.\<close>

datatype ats_manager = ATS ATSManager | FakeATS FakeATSManager

type_synonym 'x run_command = "string list \<Rightarrow> 'x \<Rightarrow> (string + string) \<times> 'x"

section \<open>Formatting\<close>

text \<open>
  The verb \<open>%q\<close> on bytes: a double-quoted string with escapes. A string with a byte outside
  ASCII is decoded as UTF-8 and needs the Unicode tables: parameter \<open>unicode_quote\<close>.
\<close>

definition hex_digit :: "nat \<Rightarrow> char" where
  "hex_digit d = (if d < 10 then char_of (48 + d) else char_of (87 + d))"

definition quote_char :: "char \<Rightarrow> string" where
  "quote_char c = (let n = of_char c :: nat in
     if n = 34 then [CHR 0x5C, c]
     else if n = 92 then [c, c]
     else if n = 7 then CHR 0x5C # ''a''
     else if n = 8 then CHR 0x5C # ''b''
     else if n = 12 then CHR 0x5C # ''f''
     else if n = 10 then CHR 0x5C # ''n''
     else if n = 13 then CHR 0x5C # ''r''
     else if n = 9 then CHR 0x5C # ''t''
     else if n = 11 then CHR 0x5C # ''v''
     else if n < 32 \<or> n = 127
       then CHR 0x5C # ''x'' @ [hex_digit (n div 16), hex_digit (n mod 16)]
     else [c])"

definition quote :: "(string \<Rightarrow> string) \<Rightarrow> string \<Rightarrow> string" where
  "quote unicode_quote s =
     (if list_all (\<lambda>c. (of_char c :: nat) < 128) s
      then CHR 0x22 # concat (map quote_char s) @ [CHR 0x22]
      else unicode_quote s)"

text \<open>\<open>strings.Trim\<close> with a set of characters, and \<open>strings.Split\<close> on a longer separator.\<close>

definition Trim :: "string \<Rightarrow> string \<Rightarrow> string" where
  "Trim s cutset = (let inside = (\<lambda>c. c \<in> set cutset) in
     rev (dropWhile inside (rev (dropWhile inside s))))"

function split_str :: "string \<Rightarrow> string \<Rightarrow> string \<Rightarrow> string list" where
  "split_str sep acc [] = [rev acc]"
| "split_str sep acc (c # cs) =
     (if prefix sep (c # cs) then rev acc # split_str sep [] (drop (length sep - 1) cs)
      else split_str sep (c # acc) cs)"
  by pat_completeness auto
termination
  by (relation "measure (\<lambda>(sep, acc, s). length s)") auto

section \<open>The real manager\<close>

definition ATSManager_IncludeIngressClass :: "ATSManager \<Rightarrow> string \<Rightarrow> bool" where
  "ATSManager_IncludeIngressClass m c =
     (if IngressClass m = [] then True else if IngressClass m = c then True else False)"

definition ATSManager_ConfigSet ::
    "'x run_command \<Rightarrow> (string \<Rightarrow> string) \<Rightarrow> string \<Rightarrow> string \<Rightarrow> 'x \<Rightarrow> string with_error \<times> 'x" where
  "ATSManager_ConfigSet run U k v x =
     (case run [''traffic_ctl'', ''config'', ''set'', k, v] x of
        (Inl err, x') \<Rightarrow>
          (([], Some (''failed to execute: traffic_ctl config set '' @ k @ '' '' @ v
             @ '' Error: '' @ err)), x')
      | (Inr out, x') \<Rightarrow>
          ((''Ran p.Key: '' @ k @ '' p.Val: '' @ v @ '' --> stdoutStderr: '' @ quote U out, None), x'))"

definition ATSManager_CacheSet ::
    "'x run_command \<Rightarrow> (string \<Rightarrow> string) \<Rightarrow> 'x \<Rightarrow> string with_error \<times> 'x" where
  "ATSManager_CacheSet run U x =
     (case run [''traffic_ctl'', ''config'', ''reload''] x of
        (Inl err, x') \<Rightarrow>
          (([], Some (''failed to execute: traffic_ctl config reload  Error: '' @ err)), x')
      | (Inr out, x') \<Rightarrow> ((''Reload succesful --> stdoutStderr: '' @ quote U out, None), x'))"

definition ATSManager_SniSet ::
    "'x run_command \<Rightarrow> (string \<Rightarrow> string) \<Rightarrow> 'x \<Rightarrow> string with_error \<times> 'x" where
  "ATSManager_SniSet run U x =
     (case run [''traffic_ctl'', ''config'', ''reload''] x of
        (Inl err, x') \<Rightarrow>
          (([], Some (''failed to execute: traffic_ctl config reload Error: '' @ err)), x')
      | (Inr out, x') \<Rightarrow> ((''Reload succesful --> stdoutStderr: '' @ quote U out, None), x'))"

text \<open>
  \<open>ConfigGet\<close> quotes the output, trims the quotes, trims every leading and trailing backslash
  and letter n, and takes the second part around a colon and a blank: an index out of range
  (a panic, \<open>None\<close>) when there is none.
\<close>

definition ATSManager_ConfigGet ::
    "'x run_command \<Rightarrow> (string \<Rightarrow> string) \<Rightarrow> string \<Rightarrow> ('x, string with_error) call" where
  "ATSManager_ConfigGet run U k x =
     (case run [''traffic_ctl'', ''config'', ''get'', k] x of
        (Inl err, x') \<Rightarrow>
          (Some ([], Some (''failed to execute: traffic_ctl config get '' @ k @ '' Error: '' @ err)), x')
      | (Inr out, x') \<Rightarrow>
          (let stdoutString = quote U out;
               parts = split_str '': '' []
                 (Trim (Trim stdoutString [CHR 0x22]) [CHR 0x5C, CHR ''n''])
           in (if 1 < length parts then Some (parts ! 1, None) else None, x')))"

section \<open>The fake manager\<close>

definition FakeATSManager_IncludeIngressClass :: "FakeATSManager \<Rightarrow> string \<Rightarrow> bool" where
  "FakeATSManager_IncludeIngressClass m c =
     (if IngressClass m = [] then True else if IngressClass m = c then True else False)"

definition FakeATSManager_CacheSet :: "string with_error" where
  "FakeATSManager_CacheSet = (''Config reload succesful'', None)"

definition FakeATSManager_SniSet :: "string with_error" where
  "FakeATSManager_SniSet = (''Config reload succesful'', None)"

definition FakeATSManager_ConfigSet ::
    "string \<Rightarrow> string \<Rightarrow> FakeATSManager \<Rightarrow> string with_error \<times> FakeATSManager" where
  "FakeATSManager_ConfigSet k v m =
     ((''Ran p.Key: '' @ k @ '' p.Val: '' @ v, None), m\<lparr>Config := gm_set k v (Config m)\<rparr>)"

definition FakeATSManager_ConfigGet :: "string \<Rightarrow> FakeATSManager \<Rightarrow> string with_error" where
  "FakeATSManager_ConfigGet k m =
     (case gm_get (Config m) k of
        Some val \<Rightarrow> (val, None)
      | None \<Rightarrow> ([], Some ''key does not exist''))"

section \<open>Calls through the interface\<close>

record 'x ats_env =
  run_cmd :: "'x run_command"
  unicode_quote :: "string \<Rightarrow> string"

fun IncludeIngressClass :: "ats_manager \<Rightarrow> string \<Rightarrow> bool" where
  "IncludeIngressClass (ATS m) c = ATSManager_IncludeIngressClass m c"
| "IncludeIngressClass (FakeATS m) c = FakeATSManager_IncludeIngressClass m c"

fun ConfigSet :: "'x ats_env \<Rightarrow> string \<Rightarrow> string \<Rightarrow> ats_manager \<times> 'x
    \<Rightarrow> string with_error \<times> (ats_manager \<times> 'x)" where
  "ConfigSet E k v (ATS m, x) =
     (case ATSManager_ConfigSet (run_cmd E) (unicode_quote E) k v x of (r, x') \<Rightarrow> (r, (ATS m, x')))"
| "ConfigSet E k v (FakeATS m, x) =
     (case FakeATSManager_ConfigSet k v m of (r, m') \<Rightarrow> (r, (FakeATS m', x)))"

fun ConfigGet :: "'x ats_env \<Rightarrow> string \<Rightarrow> ats_manager \<times> 'x
    \<Rightarrow> string with_error option \<times> (ats_manager \<times> 'x)" where
  "ConfigGet E k (ATS m, x) =
     (case ATSManager_ConfigGet (run_cmd E) (unicode_quote E) k x of (r, x') \<Rightarrow> (r, (ATS m, x')))"
| "ConfigGet E k (FakeATS m, x) = (Some (FakeATSManager_ConfigGet k m), (FakeATS m, x))"

fun CacheSet :: "'x ats_env \<Rightarrow> ats_manager \<times> 'x \<Rightarrow> string with_error \<times> (ats_manager \<times> 'x)" where
  "CacheSet E (ATS m, x) =
     (case ATSManager_CacheSet (run_cmd E) (unicode_quote E) x of (r, x') \<Rightarrow> (r, (ATS m, x')))"
| "CacheSet E (FakeATS m, x) = (FakeATSManager_CacheSet, (FakeATS m, x))"

fun SniSet :: "'x ats_env \<Rightarrow> ats_manager \<times> 'x \<Rightarrow> string with_error \<times> (ats_manager \<times> 'x)" where
  "SniSet E (ATS m, x) =
     (case ATSManager_SniSet (run_cmd E) (unicode_quote E) x of (r, x') \<Rightarrow> (r, (ATS m, x')))"
| "SniSet E (FakeATS m, x) = (FakeATSManager_SniSet, (FakeATS m, x))"

section \<open>What a client of the interface relies on\<close>

fun class_of :: "ats_manager \<Rightarrow> string" where
  "class_of (ATS m) = IngressClass m"
| "class_of (FakeATS m) = IngressClass m"

text \<open>
  The handlers use the class filter and the setters through the interface only. The contract: a
  manager without a class accepts every ingress, one with a class only its own, and setting or
  reloading never changes the class, so the filter stays what it was at the start.
\<close>

locale class_filter =
  fixes cls :: "'m \<Rightarrow> string"
    and accepts :: "'m \<Rightarrow> string \<Rightarrow> bool"
    and config :: "string \<Rightarrow> string \<Rightarrow> 'm \<times> 'x \<Rightarrow> string with_error \<times> ('m \<times> 'x)"
    and reload :: "'m \<times> 'x \<Rightarrow> string with_error \<times> ('m \<times> 'x)"
  assumes accepts_iff: "accepts m c \<longleftrightarrow> cls m = [] \<or> cls m = c"
    and config_class: "cls (fst (snd (config k v s))) = cls (fst s)"
    and reload_class: "cls (fst (snd (reload s))) = cls (fst s)"
begin

lemma accepts_all: "cls m = [] \<Longrightarrow> accepts m c"
  by (simp add: accepts_iff)

lemma config_accepts: "accepts (fst (snd (config k v s))) = accepts (fst s)"
  by (simp add: fun_eq_iff accepts_iff config_class)

lemma reload_accepts: "accepts (fst (snd (reload s))) = accepts (fst s)"
  by (simp add: fun_eq_iff accepts_iff reload_class)

lemma configs_accept:
  "accepts (fst (fold (\<lambda>(k, v) s. snd (config k v s)) kvs s)) = accepts (fst s)"
  by (induction kvs arbitrary: s) (auto simp: config_accepts)

end

lemma IncludeIngressClass_iff: "IncludeIngressClass m c \<longleftrightarrow> class_of m = [] \<or> class_of m = c"
  by (cases m) (auto simp: ATSManager_IncludeIngressClass_def FakeATSManager_IncludeIngressClass_def)

lemma ConfigSet_class: "class_of (fst (snd (ConfigSet E k v s))) = class_of (fst s)"
  by (cases "(E, k, v, s)" rule: ConfigSet.cases)
    (auto simp: FakeATSManager_ConfigSet_def split: prod.splits)

lemma CacheSet_class: "class_of (fst (snd (CacheSet E s))) = class_of (fst s)"
  by (cases "(E, s)" rule: CacheSet.cases) (auto split: prod.splits)

lemma SniSet_class: "class_of (fst (snd (SniSet E s))) = class_of (fst s)"
  by (cases "(E, s)" rule: SniSet.cases) (auto split: prod.splits)

interpretation cache_ats: class_filter class_of IncludeIngressClass "ConfigSet E" "CacheSet E" for E
  by unfold_locales (simp_all add: IncludeIngressClass_iff ConfigSet_class CacheSet_class)

interpretation sni_ats: class_filter class_of IncludeIngressClass "ConfigSet E" "SniSet E" for E
  by unfold_locales (simp_all add: IncludeIngressClass_iff ConfigSet_class SniSet_class)

section \<open>Reading a setting back\<close>

text \<open>Characters that \<open>%q\<close> leaves alone.\<close>

definition plain_char :: "char \<Rightarrow> bool" where
  "plain_char c \<longleftrightarrow> (let n = of_char c :: nat in 32 \<le> n \<and> n < 127 \<and> n \<noteq> 34 \<and> n \<noteq> 92)"

lemma quote_plain: "list_all plain_char s \<Longrightarrow> concat (map quote_char s) = s"
  by (induction s) (auto simp: plain_char_def quote_char_def Let_def)

lemma quote_newline: "quote_char (CHR 0x0A) = [CHR 0x5C, CHR ''n'']"
  by (simp add: quote_char_def)

lemma quote_line:
  assumes "list_all plain_char s"
  shows "quote U (s @ [CHR 0x0A]) = CHR 0x22 # s @ [CHR 0x5C, CHR ''n'', CHR 0x22]"
proof -
  have "list_all (\<lambda>c. (of_char c :: nat) < 128) s"
    using assms by (auto simp: list_all_iff plain_char_def Let_def)
  then show ?thesis by (simp add: quote_def quote_plain [OF assms] quote_newline)
qed

lemma plain_not_special: "list_all plain_char s \<Longrightarrow> c \<in> set s \<Longrightarrow> c \<noteq> CHR 0x22 \<and> c \<noteq> CHR 0x5C"
  by (auto simp: list_all_iff plain_char_def Let_def)

lemma dropWhile_stop: "\<not> P y \<Longrightarrow> dropWhile P (xs @ y # ys) = dropWhile P xs @ y # ys"
  by (induction xs) auto

lemma split_str_none: "\<not> contains s sep \<Longrightarrow> split_str sep acc s = [rev acc @ s]"
  by (induction s arbitrary: acc) auto

lemma split_str_first:
  assumes "CHR '':'' \<notin> set k"
  shows "split_str '': '' acc (k @ '': '' @ w) = (rev acc @ k) # split_str '': '' [] w"
  using assms by (induction k arbitrary: acc) auto

lemma contains_prefix_part: "\<not> contains (a @ b) sub \<Longrightarrow> \<not> contains a sub"
  by (auto simp: contains_sublist sublist_append)

text \<open>
  C31. \<open>ConfigGet\<close> of the real manager loses letters: on the line that \<open>traffic_ctl config get\<close>
  prints, the key, a colon, a blank, the value and a line feed, it returns the value without all
  the letters n at its end, because the trimming that is meant to take away the quoted line feed
  takes a set of characters.
\<close>

theorem ATSManager_ConfigGet_trims:
  assumes "run [''traffic_ctl'', ''config'', ''get'', k] x = (Inr (k @ '': '' @ v @ [CHR 0x0A]), x')"
    and "k \<noteq> []" "hd k \<noteq> CHR ''n''" "CHR '':'' \<notin> set k" "list_all plain_char k"
    and "list_all plain_char v" "\<not> contains v '': ''"
  shows "ATSManager_ConfigGet run U k x =
    (Some (rev (dropWhile (\<lambda>c. c = CHR ''n'') (rev v)), None), x')"
proof -
  let ?w = "rev (dropWhile (\<lambda>c. c = CHR ''n'') (rev v))"
  let ?body = "k @ '': '' @ v @ [CHR 0x5C, CHR ''n'']"
  have "quote U (k @ '': '' @ v @ [CHR 0x0A]) = CHR 0x22 # ?body @ [CHR 0x22]"
    using quote_line [of "k @ '': '' @ v" U] assms(5,6) by (simp add: plain_char_def)
  moreover obtain c cs where k: "k = c # cs" using assms(2) by (cases k) auto
  then have c: "c \<noteq> CHR 0x22" "c \<noteq> CHR 0x5C" "c \<noteq> CHR ''n''"
    using plain_not_special [OF assms(5), of c] assms(3) by auto
  have "Trim (CHR 0x22 # ?body @ [CHR 0x22]) [CHR 0x22] = ?body"
    using c by (simp add: Trim_def k)
  moreover have "Trim ?body [CHR 0x5C, CHR ''n''] = k @ '': '' @ ?w"
  proof -
    have "dropWhile (\<lambda>c. c \<in> set [CHR 0x5C, CHR ''n'']) (rev v) = dropWhile (\<lambda>c. c = CHR ''n'') (rev v)"
      using plain_not_special [OF assms(6)] by (intro dropWhile_cong) auto
    moreover have "dropWhile (\<lambda>c. c \<in> set [CHR 0x5C, CHR ''n'']) (rev v @ '' :'' @ rev k)
        = dropWhile (\<lambda>c. c \<in> set [CHR 0x5C, CHR ''n'']) (rev v) @ '' :'' @ rev k"
      using dropWhile_stop [of "\<lambda>c. c \<in> set [CHR 0x5C, CHR ''n'']" "CHR '' ''" "rev v" "CHR '':'' # rev k"]
      by simp
    ultimately show ?thesis using c by (simp add: Trim_def k)
  qed
  moreover have "split_str '': '' [] (k @ '': '' @ ?w) = [k, ?w]"
  proof -
    have "v = ?w @ rev (takeWhile (\<lambda>c. c = CHR ''n'') (rev v))"
      by (metis rev_append rev_rev_ident takeWhile_dropWhile_id)
    with assms(7) have "\<not> contains ?w '': ''" by (metis contains_prefix_part)
    then show ?thesis using split_str_first [OF assms(4), of "[]" ?w] by (simp add: split_str_none)
  qed
  ultimately show ?thesis by (simp add: ATSManager_ConfigGet_def assms(1) Let_def)
qed

definition ctl_example :: "unit run_command" where
  "ctl_example cmd x = (Inr (''proxy.config.a: origin'' @ [CHR 0x0A]), x)"

theorem ATSManager_ConfigGet_trims_witness:
  "ATSManager_ConfigGet ctl_example (\<lambda>s. s) ''proxy.config.a'' () = (Some (''origi'', None), ())"
proof -
  have r: "ctl_example [''traffic_ctl'', ''config'', ''get'', ''proxy.config.a''] ()
    = (Inr (''proxy.config.a'' @ '': '' @ ''origin'' @ [CHR 0x0A]), ())" by (simp add: ctl_example_def)
  have p: "''proxy.config.a'' \<noteq> []" "hd ''proxy.config.a'' \<noteq> CHR ''n''"
    "CHR '':'' \<notin> set ''proxy.config.a''" by simp_all
  have q: "list_all plain_char ''proxy.config.a''" "list_all plain_char ''origin''"
    "\<not> contains ''origin'' '': ''" by code_simp+
  show ?thesis
    using ATSManager_ConfigGet_trims [where run = ctl_example and k = "''proxy.config.a''" and
        v = "''origin''" and x = "()" and x' = "()" and U = "\<lambda>s. s", OF r, OF p, OF q] by simp
qed

end
