(* ===== verification/Event_Handler.thy ===== *)
theory Event_Handler
  imports Redis Util Namespace Proxy
begin

text \<open>
  The shared context of the handlers (\<open>endpoint/endpoint.go\<close>) and the interface
  \<open>EventHandler\<close> of \<open>watcher/watcher.go\<close>: a handler is registered with an informer, which
  delivers one event after the other. The locale \<open>event_handler\<close> is the contract of a handler
  over the invariant its state must keep; whole runs are treated there once.
\<close>

section \<open>The shared context\<close>

definition UpdateRedis :: bool where
  "UpdateRedis = True"

definition UpdateATS :: bool where
  "UpdateATS = True"

text \<open>The manager is a nil-able interface value.\<close>

record Endpoint =
  RedisClient :: Client
  ATSManager_of :: "ats_manager option"
  NsManager_of :: NsManager

text \<open>
  The test of the handlers on an ingress's namespace and class. The class is only looked at when
  the namespace is included; then a nil manager panics (\<open>None\<close>).
\<close>

definition included :: "Endpoint \<Rightarrow> string \<Rightarrow> string \<Rightarrow> bool option" where
  "included E namespace class =
     (if \<not> IncludeNamespace (NsManager_of E) namespace then Some False
      else (case ATSManager_of E of
              None \<Rightarrow> None
            | Some m \<Rightarrow> Some (IncludeIngressClass m class)))"

section \<open>Events\<close>

datatype 'o event = AddEvent 'o | UpdateEvent 'o 'o | DeleteEvent 'o

record ('o, 's) EventHandler =
  Add :: "'o \<Rightarrow> 's prog"
  Update :: "'o \<Rightarrow> 'o \<Rightarrow> 's prog"
  Delete :: "'o \<Rightarrow> 's prog"
  GetResourceName :: string

fun deliver :: "('o, 's) EventHandler \<Rightarrow> 'o event \<Rightarrow> 's prog" where
  "deliver h (AddEvent ob) = Add h ob"
| "deliver h (UpdateEvent ob newOb) = Update h ob newOb"
| "deliver h (DeleteEvent ob) = Delete h ob"

definition deliver_all :: "('o, 's) EventHandler \<Rightarrow> 'o event list \<Rightarrow> 's prog" where
  "deliver_all h evs = for_each (deliver h) evs"

fun event_objects :: "'o event \<Rightarrow> 'o list" where
  "event_objects (AddEvent ob) = [ob]"
| "event_objects (UpdateEvent ob newOb) = [ob, newOb]"
| "event_objects (DeleteEvent ob) = [ob]"

text \<open>
  \<open>valid\<close> says which objects the API server can deliver, \<open>inv\<close> what holds between two events.
\<close>

locale event_handler =
  fixes h :: "('o, 's) EventHandler"
    and valid :: "'o \<Rightarrow> bool"
    and inv :: "'s \<Rightarrow> bool"
  assumes Add_inv: "valid ob \<Longrightarrow> inv s \<Longrightarrow> \<exists>s'. Add h ob s = Ok s' \<and> inv s'"
    and Update_inv: "valid ob \<Longrightarrow> valid newOb \<Longrightarrow> inv s \<Longrightarrow> \<exists>s'. Update h ob newOb s = Ok s' \<and> inv s'"
    and Delete_inv: "valid ob \<Longrightarrow> inv s \<Longrightarrow> \<exists>s'. Delete h ob s = Ok s' \<and> inv s'"
begin

lemma deliver_inv:
  assumes "list_all valid (event_objects ev)" "inv s"
  shows "\<exists>s'. deliver h ev s = Ok s' \<and> inv s'"
  using assms by (cases ev) (auto intro: Add_inv Update_inv Delete_inv)

lemma deliver_all_inv:
  assumes "list_all (\<lambda>ev. list_all valid (event_objects ev)) evs" "inv s"
  shows "\<exists>s'. deliver_all h evs s = Ok s' \<and> inv s'"
  using assms
proof (induction evs arbitrary: s)
  case Nil
  then show ?case by (simp add: deliver_all_def skip_def)
next
  case (Cons ev evs)
  then obtain s1 where 1: "deliver h ev s = Ok s1" "inv s1"
    using deliver_inv by (metis list.pred_inject(2))
  with Cons obtain s' where "deliver_all h evs s1 = Ok s'" "inv s'" by auto
  with 1 show ?case by (simp add: deliver_all_def seq_def)
qed

end

section \<open>A controller with an open Redis connection\<close>

text \<open>
  The handlers that write to Redis work under this context. \<open>temp_clean d D\<close> is their
  invariant: no temporary key of database \<open>d\<close> has members, so an update starts from nothing.
\<close>

definition temp_clean :: "nat \<Rightarrow> dbs \<Rightarrow> bool" where
  "temp_clean d D \<longleftrightarrow> (\<forall>k. is_temp k \<longrightarrow> D d k = {})"

lemma temp_cleanD: "temp_clean d D \<Longrightarrow> D d (temp_key k) = {}"
  by (simp add: temp_clean_def)

locale controller_redis = redis_server R members up
  for R :: "'s redis_api" and members :: "'s \<Rightarrow> dbs" and up :: "'s \<Rightarrow> bool" +
  fixes E :: Endpoint
  assumes client: "client_open (RedisClient E)"

lemma controller_redisI:
  "redis_server R members up \<Longrightarrow> client_open (RedisClient E) \<Longrightarrow> controller_redis R members up E"
  by (simp add: controller_redis_def controller_redis_axioms_def)

text \<open>A handler that refines a function on databases keeps what the function keeps.\<close>

lemma refines_inv:
  assumes "refines ok view p g" "ok s" "I (view s)" "\<And>D. I D \<Longrightarrow> I (g D)"
  shows "\<exists>s'. p s = Ok s' \<and> ok s' \<and> I (view s')"
  using refinesD [OF assms(1,2)] assms(3,4) by auto

text \<open>The controller of the concrete examples: every namespace, any class.\<close>

definition mem_endpoint :: Endpoint where
  "mem_endpoint = \<lparr>RedisClient = mem_client,
     ATSManager_of = Some (ATS \<lparr>ATSNamespace = ''default'', IngressClass = []\<rparr>),
     NsManager_of = \<lparr>NamespaceMap = [], IgnoreNamespaceMap = [(''kube-system'', True)],
       allNamespaces = True\<rparr>\<rparr>"

interpretation mem_ctl: controller_redis mem_redis mem_members mem_up mem_endpoint
  by unfold_locales (simp add: mem_endpoint_def)

end
