(* ===== verification/Endpoint_Handler.thy ===== *)
theory Endpoint_Handler
  imports Event_Handler
begin

text \<open>
  \<open>watcher/handlerEndpoint.go\<close>: database 0 maps \<open>namespace:service:port\<close> to the addresses
  \<open>ip#port#protocol\<close> of the service's endpoints.
\<close>

section \<open>The handler\<close>

definition EpHandler_add :: "'s redis_api \<Rightarrow> Endpoint \<Rightarrow> k8s_obj \<Rightarrow> 's prog" where
  "EpHandler_add R E obj =
     (case as_endpoints obj of
        None \<Rightarrow> skip
      | Some eps \<Rightarrow>
          (let podSvcName = Name eps; namespace = Namespace eps in
           if \<not> IncludeNamespace (NsManager_of E) namespace then skip
           else for_each (\<lambda>subset.
                  for_each (\<lambda>port.
                    let portnum = port_string (Port port);
                        portname = PortName port;
                        key = ConstructSvcPortString namespace podSvcName portnum
                    in for_each (\<lambda>addr.
                         let v = ConstructIPPortString (IP addr) portnum portname
                         in DefaultDBSAdd R (RedisClient E) key v) (Addresses subset))
                    (Ports subset)) (Subsets eps)))"

definition EpHandler_Add :: "'s redis_api \<Rightarrow> Endpoint \<Rightarrow> k8s_obj \<Rightarrow> 's prog" where
  "EpHandler_Add R E obj = block [EpHandler_add R E obj, PrintAllKeys R (RedisClient E)]"

definition EpHandler_update :: "'s redis_api \<Rightarrow> Endpoint \<Rightarrow> k8s_obj \<Rightarrow> 's prog" where
  "EpHandler_update R E obj =
     (case as_endpoints obj of
        None \<Rightarrow> skip
      | Some eps \<Rightarrow>
          (let podSvcName = Name eps; namespace = Namespace eps in
           if \<not> IncludeNamespace (NsManager_of E) namespace then skip
           else for_each (\<lambda>subset.
                  for_each (\<lambda>port.
                    let portnum = port_string (Port port);
                        portname = PortName port;
                        key = ConstructSvcPortString namespace podSvcName portnum
                    in block
                      [for_each (\<lambda>addr.
                         let k = temp_key key;
                             v = ConstructIPPortString (IP addr) portnum portname
                         in DefaultDBSAdd R (RedisClient E) k v) (Addresses subset),
                       DefaultDBSUnionStore R (RedisClient E) key (temp_key key),
                       DefaultDBDel R (RedisClient E) (temp_key key)])
                    (Ports subset)) (Subsets eps)))"

text \<open>\<open>Update\<close> ignores the old object.\<close>

definition EpHandler_Update :: "'s redis_api \<Rightarrow> Endpoint \<Rightarrow> k8s_obj \<Rightarrow> k8s_obj \<Rightarrow> 's prog" where
  "EpHandler_Update R E obj newObj =
     block [EpHandler_update R E newObj, PrintAllKeys R (RedisClient E)]"

definition EpHandler_delete :: "'s redis_api \<Rightarrow> Endpoint \<Rightarrow> k8s_obj \<Rightarrow> 's prog" where
  "EpHandler_delete R E obj =
     (case as_endpoints obj of
        None \<Rightarrow> skip
      | Some eps \<Rightarrow>
          (let podSvcName = Name eps; namespace = Namespace eps in
           if \<not> IncludeNamespace (NsManager_of E) namespace then skip
           else for_each (\<lambda>subset.
                  for_each (\<lambda>port.
                    let portnum = port_string (Port port);
                        key = ConstructSvcPortString namespace podSvcName portnum
                    in DefaultDBDel R (RedisClient E) key) (Ports subset)) (Subsets eps)))"

definition EpHandler_Delete :: "'s redis_api \<Rightarrow> Endpoint \<Rightarrow> k8s_obj \<Rightarrow> 's prog" where
  "EpHandler_Delete R E obj = block [EpHandler_delete R E obj, PrintAllKeys R (RedisClient E)]"

definition EpHandler :: "'s redis_api \<Rightarrow> Endpoint \<Rightarrow> (k8s_obj, 's) EventHandler" where
  "EpHandler R E = \<lparr>Add = EpHandler_Add R E, Update = EpHandler_Update R E,
     Delete = EpHandler_Delete R E, GetResourceName = ''endpoints''\<rparr>"

section \<open>The table the handler maintains\<close>

text \<open>
  The rows an endpoints object contributes: one per subset and port, in the order of the loops,
  with the key and the addresses. A key may occur in several rows.
\<close>

definition ep_rows :: "Endpoints \<Rightarrow> (string \<times> string list) list" where
  "ep_rows eps = concat (map (\<lambda>subset.
     map (\<lambda>port.
       (ConstructSvcPortString (Namespace eps) (Name eps) (port_string (Port port)),
        map (\<lambda>addr. ConstructIPPortString (IP addr) (port_string (Port port)) (PortName port))
          (Addresses subset))) (Ports subset)) (Subsets eps))"

text \<open>The rows a watched object contributes; none for another object or namespace.\<close>

definition watched_rows :: "Endpoint \<Rightarrow> k8s_obj \<Rightarrow> (string \<times> string list) list" where
  "watched_rows E obj =
     (case as_endpoints obj of
        None \<Rightarrow> []
      | Some eps \<Rightarrow> if IncludeNamespace (NsManager_of E) (Namespace eps) then ep_rows eps else [])"

text \<open>What each operation does to database 0.\<close>

definition rows_add :: "(string \<times> string list) list \<Rightarrow> dbs \<Rightarrow> dbs" where
  "rows_add rows D = D(0 := (\<lambda>k. D 0 k \<union> {v. \<exists>vs. (k, vs) \<in> set rows \<and> v \<in> set vs}))"

definition rows_set :: "(string \<times> string list) list \<Rightarrow> dbs \<Rightarrow> dbs" where
  "rows_set rows D =
     D(0 := (\<lambda>k. case map_of (rev rows) k of None \<Rightarrow> D 0 k | Some vs \<Rightarrow> set vs))"

definition rows_del :: "(string \<times> string list) list \<Rightarrow> dbs \<Rightarrow> dbs" where
  "rows_del rows D = D(0 := (\<lambda>k. if k \<in> fst ` set rows then {} else D 0 k))"

lemma EpHandler_add_rows:
  "EpHandler_add R E obj =
     for_each (\<lambda>(key, vs). for_each (DefaultDBSAdd R (RedisClient E) key) vs) (watched_rows E obj)"
  by (simp add: EpHandler_add_def watched_rows_def ep_rows_def for_each_concat for_each_map Let_def
      split: option.split)

lemma EpHandler_update_rows:
  "EpHandler_update R E obj =
     for_each (\<lambda>(key, vs). block
       [for_each (DefaultDBSAdd R (RedisClient E) (temp_key key)) vs,
        DefaultDBSUnionStore R (RedisClient E) key (temp_key key),
        DefaultDBDel R (RedisClient E) (temp_key key)]) (watched_rows E obj)"
  by (simp add: EpHandler_update_def watched_rows_def ep_rows_def for_each_concat for_each_map Let_def
      split: option.split)

lemma EpHandler_delete_rows:
  "EpHandler_delete R E obj =
     for_each (\<lambda>(key, vs). DefaultDBDel R (RedisClient E) key) (watched_rows E obj)"
  by (simp add: EpHandler_delete_def watched_rows_def ep_rows_def for_each_concat for_each_map Let_def
      split: option.split)

text \<open>The folds the loops refine to, in closed form.\<close>

lemma rows_Nil [simp]: "rows_add [] D = D" "rows_set [] D = D" "rows_del [] D = D"
  by (auto simp: rows_add_def rows_set_def rows_del_def)

lemma rows_add_Cons:
  "rows_add ((k, vs) # rows) D = rows_add rows (D(0 := (D 0)(k := D 0 k \<union> set vs)))"
  by (auto simp: rows_add_def fun_eq_iff split: if_splits)

lemma rows_set_Cons:
  "rows_set ((k, vs) # rows) D = rows_set rows (D(0 := (D 0)(k := set vs)))"
  by (auto simp: rows_set_def fun_eq_iff map_add_def split: option.splits if_splits)

lemma rows_del_Cons: "rows_del ((k, vs) # rows) D = rows_del rows (D(0 := (D 0)(k := {})))"
  by (auto simp: rows_del_def fun_eq_iff split: if_splits)

lemma fold_rows_add: "fold (\<lambda>(k, vs). fold (db_add 0 k) vs) rows D = rows_add rows D"
  by (induction rows arbitrary: D) (auto simp: rows_add_Cons fold_db_add)

lemma fold_rows_del: "fold (\<lambda>(k, vs). db_del 0 k) rows D = rows_del rows D"
  by (induction rows arbitrary: D) (auto simp: rows_del_Cons db_del_def)

definition swap_row :: "string \<times> string list \<Rightarrow> dbs \<Rightarrow> dbs" where
  "swap_row = (\<lambda>(k, vs) D.
     db_del 0 (temp_key k) (db_union 0 k (temp_key k) (fold (db_add 0 (temp_key k)) vs D)))"

lemma swap_row_clean:
  assumes "temp_clean 0 D" "\<not> is_temp k"
  shows "swap_row (k, vs) D = D(0 := (D 0)(k := set vs))"
proof -
  have "k \<noteq> temp_key k" using assms(2) by (metis is_temp_temp_key)
  moreover have "D 0 (temp_key k) = {}" using assms(1) by (rule temp_cleanD)
  ultimately show ?thesis by (auto simp: swap_row_def fold_db_add db_defs fun_eq_iff)
qed

lemma fold_swap_rows:
  assumes "temp_clean 0 D" "\<forall>(k, vs) \<in> set rows. \<not> is_temp k"
  shows "fold swap_row rows D = rows_set rows D"
  using assms
proof (induction rows arbitrary: D)
  case Nil
  then show ?case by simp
next
  case (Cons row rows)
  obtain k vs where row: "row = (k, vs)" by (cases row)
  let ?D = "D(0 := (D 0)(k := set vs))"
  from Cons.prems row have "\<not> is_temp k" by simp
  then have 1: "swap_row row D = ?D" and "temp_clean 0 ?D"
    using Cons.prems(1) row by (auto simp: swap_row_clean temp_clean_def)
  with Cons have "fold swap_row rows ?D = rows_set rows ?D" by simp
  with 1 show ?case by (simp add: row rows_set_Cons)
qed

text \<open>A key is never a temporary one: a namespace name contains no underscore.\<close>

lemma svcport_not_temp:
  assumes "CHR ''_'' \<notin> set ns"
  shows "\<not> is_temp (ConstructSvcPortString ns svc port)"
  using assms
  by (auto simp: is_temp_def prefix_def ConstructSvcPortString_def append_eq_Cons_conv)

section \<open>The handler maintains the table\<close>

text \<open>The objects the API server delivers: a namespace name contains no underscore.\<close>

fun ep_valid :: "k8s_obj \<Rightarrow> bool" where
  "ep_valid (EndpointsObj eps) = (CHR ''_'' \<notin> set (Namespace eps))"
| "ep_valid _ = True"

lemma watched_rows_not_temp:
  assumes "ep_valid obj"
  shows "\<forall>(k, vs) \<in> set (watched_rows E obj). \<not> is_temp k"
proof (cases "as_endpoints obj")
  case None
  then show ?thesis by (simp add: watched_rows_def)
next
  case (Some eps)
  then have "obj = EndpointsObj eps" by (cases obj) auto
  with assms show ?thesis by (auto simp: watched_rows_def ep_rows_def svcport_not_temp)
qed

lemma rows_set_clean:
  assumes "temp_clean 0 D" "\<forall>(k, vs) \<in> set rows. \<not> is_temp k"
  shows "temp_clean 0 (rows_set rows D)"
  unfolding temp_clean_def
proof (intro allI impI)
  fix k
  assume "is_temp k"
  with assms(2) have "map_of (rev rows) k = None" by (auto simp: map_of_eq_None_iff)
  with assms(1) \<open>is_temp k\<close> show "rows_set rows D 0 k = {}" by (simp add: rows_set_def temp_clean_def)
qed

lemma rows_add_clean:
  assumes "temp_clean 0 D" "\<forall>(k, vs) \<in> set rows. \<not> is_temp k"
  shows "temp_clean 0 (rows_add rows D)"
  using assms by (auto simp: temp_clean_def rows_add_def)

lemma rows_del_clean: "temp_clean 0 D \<Longrightarrow> temp_clean 0 (rows_del rows D)"
  by (simp add: temp_clean_def rows_del_def)

context controller_redis
begin

lemma EpHandler_Add_refines: "refines up members (EpHandler_Add R E obj) (rows_add (watched_rows E obj))"
proof -
  have "refines up members (EpHandler_add R E obj)
      (\<lambda>D. fold (\<lambda>(k, vs). fold (db_add 0 k) vs) (watched_rows E obj) D)"
    unfolding EpHandler_add_rows
    by (rule refines_for_each) (auto intro!: refines_for_each redis_refines client split: prod.split)
  from refines_seq [OF this PrintAllKeys_refines [OF client]] show ?thesis
    by (simp add: EpHandler_Add_def fold_rows_add)
qed

lemma EpHandler_Delete_refines:
  "refines up members (EpHandler_Delete R E obj) (rows_del (watched_rows E obj))"
proof -
  have "refines up members (EpHandler_delete R E obj)
      (\<lambda>D. fold (\<lambda>(k, vs). db_del 0 k) (watched_rows E obj) D)"
    unfolding EpHandler_delete_rows
    by (rule refines_for_each) (auto intro!: redis_refines client split: prod.split)
  from refines_seq [OF this PrintAllKeys_refines [OF client]] show ?thesis
    by (simp add: EpHandler_Delete_def fold_rows_del)
qed

lemma EpHandler_Update_swaps:
  "refines up members (EpHandler_Update R E obj newObj) (\<lambda>D. fold swap_row (watched_rows E newObj) D)"
proof -
  have row: "refines up members (block
       [for_each (DefaultDBSAdd R (RedisClient E) (temp_key k)) vs,
        DefaultDBSUnionStore R (RedisClient E) k (temp_key k),
        DefaultDBDel R (RedisClient E) (temp_key k)]) (swap_row (k, vs))" for k vs
    unfolding block.simps seq_skip swap_row_def split
    by (intro refines_seq refines_for_each redis_refines client)
  have "refines up members (EpHandler_update R E newObj)
      (\<lambda>D. fold swap_row (watched_rows E newObj) D)"
    unfolding EpHandler_update_rows
    by (rule refines_for_each) (auto intro!: row simp del: block.simps split: prod.split)
  from refines_seq [OF this PrintAllKeys_refines [OF client]] show ?thesis
    by (simp add: EpHandler_Update_def)
qed

lemma EpHandler_Update_refines:
  assumes "ep_valid newObj"
  shows "refines (\<lambda>s. up s \<and> temp_clean 0 (members s)) members
    (EpHandler_Update R E obj newObj) (rows_set (watched_rows E newObj))"
  by (rule refines_restrict [OF EpHandler_Update_swaps])
    (simp add: fold_swap_rows rows_set_clean watched_rows_not_temp [OF assms])

end

text \<open>The handler satisfies the contract of an event handler.\<close>

sublocale controller_redis \<subseteq>
  ep: event_handler "EpHandler R E" ep_valid "\<lambda>s. up s \<and> temp_clean 0 (members s)"
proof unfold_locales
  fix ob s
  assume ob: "ep_valid ob" and s: "up s \<and> temp_clean 0 (members s)"
  show "\<exists>s'. Add (EpHandler R E) ob s = Ok s' \<and> up s' \<and> temp_clean 0 (members s')"
    using refines_inv [OF EpHandler_Add_refines, of s "temp_clean 0" ob] s
    by (simp add: EpHandler_def rows_add_clean watched_rows_not_temp [OF ob])
  show "\<exists>s'. Delete (EpHandler R E) ob s = Ok s' \<and> up s' \<and> temp_clean 0 (members s')"
    using refines_inv [OF EpHandler_Delete_refines, of s "temp_clean 0" ob] s
    by (simp add: EpHandler_def rows_del_clean)
next
  fix ob newOb s
  assume "ep_valid newOb" "up s \<and> temp_clean 0 (members s)"
  then show "\<exists>s'. Update (EpHandler R E) ob newOb s = Ok s' \<and> up s' \<and> temp_clean 0 (members s')"
    using refinesD [OF EpHandler_Update_refines [of newOb ob]] by (auto simp: EpHandler_def)
qed

context controller_redis
begin

lemma EpHandler_contract: "event_handler (EpHandler R E) ep_valid (\<lambda>s. up s \<and> temp_clean 0 (members s))"
  by (rule ep.event_handler_axioms)

lemma EpHandler_deliver_all:
  "list_all (\<lambda>ev. list_all ep_valid (event_objects ev)) evs \<Longrightarrow> up s \<and> temp_clean 0 (members s) \<Longrightarrow>
   \<exists>s'. deliver_all (EpHandler R E) evs s = Ok s' \<and> up s' \<and> temp_clean 0 (members s')"
  by (rule ep.deliver_all_inv)

end

section \<open>Properties\<close>

text \<open>An endpoints object with two subsets that share a port, for the concrete examples.\<close>

definition ep_example :: Endpoints where
  "ep_example = \<lparr>Name = ''svc'', Namespace = ''ns'', ResourceVersion = ''1'', Annotations = [],
     Subsets = [\<lparr>Addresses = [\<lparr>IP = ''10.0.0.1''\<rparr>], Ports = [\<lparr>PortName = ''web'', Port = 80\<rparr>]\<rparr>,
                \<lparr>Addresses = [\<lparr>IP = ''10.0.0.2''\<rparr>], Ports = [\<lparr>PortName = ''web'', Port = 80\<rparr>]\<rparr>]\<rparr>"

lemma ep_example_valid: "ep_valid (EndpointsObj ep_example)"
  by (simp add: ep_example_def)

lemma mem_empty_clean [simp]: "temp_clean d (mem_members mem_empty)"
  by (simp add: temp_clean_def)

text \<open>
  C16. Adding an endpoints object returns normally and adds to each key of database 0 exactly the
  addresses of all the subsets that expose that port; nothing else changes, and an object of
  another type or of a namespace that is not watched changes nothing.
\<close>

theorem EpHandler_Add_correct:
  assumes "redis_server R members up" "client_open (RedisClient E)" "up s"
  shows "\<exists>s'. EpHandler_Add R E obj s = Ok s' \<and> up s'
    \<and> members s' = rows_add (watched_rows E obj) (members s)"
  by (rule refinesD [OF controller_redis.EpHandler_Add_refines
      [OF controller_redisI [OF assms(1,2)]], OF assms(3)])

theorem EpHandler_Add_correct_witness:
  "\<exists>s'. EpHandler_Add mem_redis mem_endpoint (EndpointsObj ep_example) mem_empty = Ok s'
    \<and> mem_members s' = rows_add (watched_rows mem_endpoint (EndpointsObj ep_example)) (\<lambda>_ _. {})"
proof -
  have p: "client_open (RedisClient mem_endpoint)" "mem_up mem_empty" by (simp_all add: mem_endpoint_def)
  show ?thesis
    using EpHandler_Add_correct [OF mem.redis_server_axioms, OF p, of "EndpointsObj ep_example"]
    by auto
qed

text \<open>
  C15. Updating replaces: when no temporary key is in use, each key of the new object holds
  afterwards exactly the addresses of the last subset that exposes the port, whatever it held
  before; other keys are unchanged and no temporary key is left in use.
\<close>

theorem EpHandler_Update_correct:
  assumes "redis_server R members up" "client_open (RedisClient E)" "up s"
    and "ep_valid newObj" "temp_clean 0 (members s)"
  shows "\<exists>s'. EpHandler_Update R E obj newObj s = Ok s' \<and> up s' \<and> temp_clean 0 (members s')
    \<and> members s' = rows_set (watched_rows E newObj) (members s)"
  using refinesD [OF controller_redis.EpHandler_Update_refines
      [OF controller_redisI [OF assms(1,2)], OF assms(4)]] assms(3,5) by auto

theorem EpHandler_Update_correct_witness:
  "\<exists>s'. EpHandler_Update mem_redis mem_endpoint OtherObj (EndpointsObj ep_example) mem_empty = Ok s'
    \<and> mem_members s' = rows_set (watched_rows mem_endpoint (EndpointsObj ep_example)) (\<lambda>_ _. {})"
proof -
  have p: "client_open (RedisClient mem_endpoint)" "mem_up mem_empty" by (simp_all add: mem_endpoint_def)
  show ?thesis
    using EpHandler_Update_correct [OF mem.redis_server_axioms, OF p ep_example_valid mem_empty_clean,
        of OtherObj] by auto
qed

text \<open>
  C17. Deleting removes every address under every key of the object, and nothing else, also
  addresses that another subset or an earlier version of the object had put there.
\<close>

theorem EpHandler_Delete_correct:
  assumes "redis_server R members up" "client_open (RedisClient E)" "up s"
  shows "\<exists>s'. EpHandler_Delete R E obj s = Ok s' \<and> up s'
    \<and> members s' = rows_del (watched_rows E obj) (members s)"
  by (rule refinesD [OF controller_redis.EpHandler_Delete_refines
      [OF controller_redisI [OF assms(1,2)]], OF assms(3)])

theorem EpHandler_Delete_correct_witness:
  "\<exists>s'. EpHandler_Delete mem_redis mem_endpoint (EndpointsObj ep_example) mem_empty = Ok s'
    \<and> mem_members s' = rows_del (watched_rows mem_endpoint (EndpointsObj ep_example)) (\<lambda>_ _. {})"
proof -
  have p: "client_open (RedisClient mem_endpoint)" "mem_up mem_empty" by (simp_all add: mem_endpoint_def)
  show ?thesis
    using EpHandler_Delete_correct [OF mem.redis_server_axioms, OF p, of "EndpointsObj ep_example"]
    by auto
qed

text \<open>
  C31. When several subsets of an object expose the same port, an update leaves exactly the addresses
  of the last of them under the key of the service and port, while adding the same object puts the
  addresses of all of them there. \<open>rows\<close> are the pairs of subset and port of the object in order;
  those after the last one with this port may be for other ports.
\<close>

theorem EpHandler_Update_loses_subset:
  assumes "redis_server R members up" "client_open (RedisClient E)" "up s"
    and "ep_valid obj" "temp_clean 0 (members s)"
    and "watched_rows E obj = rows @ (k, last_addrs) # others" "k \<notin> fst ` set others"
  shows "\<exists>t u. EpHandler_Update R E old obj s = Ok t \<and> members t 0 k = set last_addrs
    \<and> EpHandler_Add R E obj s = Ok u
    \<and> members u 0 k = members s 0 k \<union> set last_addrs \<union> {v. \<exists>vs. (k, vs) \<in> set rows \<and> v \<in> set vs}"
proof -
  have c: "controller_redis R members up E" by (rule controller_redisI [OF assms(1,2)])
  have "map_of (rev others) k = None" using assms(7) by (simp add: map_of_eq_None_iff)
  then have last_row: "map_of (rev (watched_rows E obj)) k = Some last_addrs"
    by (simp add: assms(6) map_add_def)
  obtain t where "EpHandler_Update R E old obj s = Ok t"
    "members t = rows_set (watched_rows E obj) (members s)"
    using refinesD [OF controller_redis.EpHandler_Update_refines [OF c assms(4)]] assms(3,5) by blast
  moreover obtain u where "EpHandler_Add R E obj s = Ok u"
    "members u = rows_add (watched_rows E obj) (members s)"
    using refinesD [OF controller_redis.EpHandler_Add_refines [OF c], OF assms(3)] by blast
  moreover have "(k, vs) \<notin> set others" for vs using assms(7) by force
  then have "rows_add (watched_rows E obj) (members s) 0 k
      = members s 0 k \<union> set last_addrs \<union> {v. \<exists>vs. (k, vs) \<in> set rows \<and> v \<in> set vs}"
    by (auto simp: rows_add_def assms(6))
  ultimately show ?thesis using last_row by (simp add: rows_set_def)
qed

theorem EpHandler_Update_loses_subset_witness:
  "\<exists>t u. EpHandler_Update mem_redis mem_endpoint OtherObj (EndpointsObj ep_example) mem_empty = Ok t
    \<and> mem_members t 0 ''ns:svc:80'' = {''10.0.0.2#80#http''}
    \<and> EpHandler_Add mem_redis mem_endpoint (EndpointsObj ep_example) mem_empty = Ok u
    \<and> mem_members u 0 ''ns:svc:80'' = {''10.0.0.1#80#http'', ''10.0.0.2#80#http''}"
proof -
  have p: "client_open (RedisClient mem_endpoint)" "mem_up mem_empty" by (simp_all add: mem_endpoint_def)
  have rows: "watched_rows mem_endpoint (EndpointsObj ep_example) =
      [(''ns:svc:80'', [''10.0.0.1#80#http''])] @ (''ns:svc:80'', [''10.0.0.2#80#http'']) # []"
    by code_simp
  have n: "''ns:svc:80'' \<notin> fst ` set ([] :: (string \<times> string list) list)" by simp
  obtain t u where "EpHandler_Update mem_redis mem_endpoint OtherObj (EndpointsObj ep_example) mem_empty = Ok t"
    "mem_members t 0 ''ns:svc:80'' = set [''10.0.0.2#80#http'']"
    "EpHandler_Add mem_redis mem_endpoint (EndpointsObj ep_example) mem_empty = Ok u"
    "mem_members u 0 ''ns:svc:80'' = mem_members mem_empty 0 ''ns:svc:80'' \<union> set [''10.0.0.2#80#http'']
      \<union> {v. \<exists>vs. (''ns:svc:80'', vs) \<in> set [(''ns:svc:80'', [''10.0.0.1#80#http''])] \<and> v \<in> set vs}"
    using EpHandler_Update_loses_subset [OF mem.redis_server_axioms, OF p ep_example_valid
        mem_empty_clean rows n, of OtherObj] by blast
  then show ?thesis by auto
qed

text \<open>
  An update to an object without subsets (the service has lost its last endpoint) sends no
  command for the old keys: the stale addresses stay in the table.
\<close>

theorem EpHandler_Update_keeps_stale:
  assumes "redis_server R members up" "client_open (RedisClient E)" "up s" "Subsets eps = []"
  shows "\<exists>s'. EpHandler_Update R E obj (EndpointsObj eps) s = Ok s' \<and> members s' = members s"
proof -
  have "watched_rows E (EndpointsObj eps) = []"
    using assms(4) by (simp add: watched_rows_def ep_rows_def)
  then show ?thesis
    using refinesD [OF controller_redis.EpHandler_Update_swaps
        [OF controller_redisI [OF assms(1,2)], of obj "EndpointsObj eps"], OF assms(3)] by auto
qed

theorem EpHandler_Update_keeps_stale_witness:
  "\<exists>s'. EpHandler_Update mem_redis mem_endpoint (EndpointsObj ep_example)
       (EndpointsObj (ep_example\<lparr>Subsets := []\<rparr>))
       (mem_put 0 ''ns:svc:80'' [''10.0.0.1#80#http''] mem_empty) = Ok s'
    \<and> mem_members s' 0 ''ns:svc:80'' = {''10.0.0.1#80#http''}"
proof -
  have p: "client_open (RedisClient mem_endpoint)"
    "mem_up (mem_put 0 ''ns:svc:80'' [''10.0.0.1#80#http''] mem_empty)"
    by (simp_all add: mem_endpoint_def mem_up_put)
  have e: "Subsets (ep_example\<lparr>Subsets := []\<rparr>) = []" by simp
  have m: "mem_members (mem_put 0 ''ns:svc:80'' [''10.0.0.1#80#http''] mem_empty) 0 ''ns:svc:80''
      = {''10.0.0.1#80#http''}"
    by (simp add: mem_members_def mem_set_put)
  show ?thesis
    using EpHandler_Update_keeps_stale [OF mem.redis_server_axioms, OF p e, of "EndpointsObj ep_example"]
    by (metis m)
qed

text \<open>
  Whatever sequence of events on valid objects the informer delivers, the handler never
  panics and leaves no temporary key of database 0 in use.
\<close>

theorem EpHandler_run_clean:
  assumes "redis_server R members up" "client_open (RedisClient E)" "up s" "temp_clean 0 (members s)"
    and "list_all (\<lambda>ev. list_all ep_valid (event_objects ev)) evs"
  shows "\<exists>s'. deliver_all (EpHandler R E) evs s = Ok s' \<and> up s' \<and> temp_clean 0 (members s')"
  using controller_redis.EpHandler_deliver_all [OF controller_redisI [OF assms(1,2)] assms(5)] assms(3,4)
  by blast

theorem EpHandler_run_clean_witness:
  "\<exists>s'. deliver_all (EpHandler mem_redis mem_endpoint)
      [AddEvent (EndpointsObj ep_example), UpdateEvent OtherObj (EndpointsObj ep_example),
       DeleteEvent (EndpointsObj ep_example)] mem_empty = Ok s'
    \<and> temp_clean 0 (mem_members s')"
proof -
  have p: "client_open (RedisClient mem_endpoint)" "mem_up mem_empty" by (simp_all add: mem_endpoint_def)
  have v: "list_all (\<lambda>ev. list_all ep_valid (event_objects ev))
      [AddEvent (EndpointsObj ep_example), UpdateEvent OtherObj (EndpointsObj ep_example),
       DeleteEvent (EndpointsObj ep_example)]"
    by (simp add: ep_example_def)
  show ?thesis
    using EpHandler_run_clean [OF mem.redis_server_axioms, OF p mem_empty_clean v] by auto
qed

end
