(* ===== verification/Ingress_Handler.thy ===== *)
theory Ingress_Handler
  imports Event_Handler
begin

text \<open>
  \<open>watcher/handlerIngress.go\<close>: database 1 maps a routing key (prefix or exact, scheme, host,
  path) to the services that serve it and to the key of the ingress's server snippet.
\<close>

section \<open>Pieces the three operations share\<close>

text \<open>The hosts of the TLS section, as the keys of a map.\<close>

definition tls_hosts :: "IngressTLS list \<Rightarrow> (string, string) gomap" where
  "tls_hosts tls = fold (\<lambda>ingressTLS m. fold (\<lambda>tlsHost m. gm_set tlsHost ''1'' m) (Hosts ingressTLS) m) tls []"

definition rule_host :: "IngressRule \<Rightarrow> string" where
  "rule_host rule = (if Host rule = [] then ''*'' else Host rule)"

definition rule_scheme :: "(string, string) gomap \<Rightarrow> string \<Rightarrow> string" where
  "rule_scheme tlsHosts host = (if gm_has tlsHosts host then ''https'' else ''http'')"

definition service_port :: "string \<Rightarrow> IngressServiceBackend \<Rightarrow> string" where
  "service_port namespace svc =
     ConstructSvcPortString namespace (SvcName svc) (port_string (PortNumber svc))"

definition default_hostPath :: "string \<Rightarrow> string" where
  "default_hostPath scheme = ConstructHostPathString scheme ''*'' ''/'' PathTypePrefix"

text \<open>
  The loop over the rules and their paths, with the body as a parameter: it receives the routing
  key and the (possibly nil) service of a path. A rule without an HTTP section and a path without
  a path type are nil dereferences.
\<close>

definition for_each_path :: "IngressSpec \<Rightarrow> (string \<Rightarrow> IngressServiceBackend option \<Rightarrow> 's prog) \<Rightarrow> 's prog" where
  "for_each_path spec body =
     (let tlsHosts = tls_hosts (TLS spec) in
      for_each (\<lambda>ingressRule.
        let host = rule_host ingressRule;
            scheme = rule_scheme tlsHosts host
        in case HTTP ingressRule of
             None \<Rightarrow> panic
           | Some paths \<Rightarrow>
               for_each (\<lambda>httpPath.
                 case HTTPPathType httpPath of
                   None \<Rightarrow> panic
                 | Some pathType \<Rightarrow>
                     body (ConstructHostPathString scheme host (Path httpPath) pathType)
                       (Service (Backend httpPath))) paths) (Rules spec))"

section \<open>Add\<close>

definition add_route :: "'s redis_api \<Rightarrow> Client \<Rightarrow> string \<Rightarrow> string option \<Rightarrow> string \<Rightarrow> string \<Rightarrow> 's prog" where
  "add_route R c nameversion snippetErr hostPath svcport =
     block [DBOneSAdd R c hostPath svcport,
            guarded (snippetErr = None) (DBOneSAdd R c hostPath nameversion)]"

definition IgHandler_add :: "'s redis_api \<Rightarrow> Endpoint \<Rightarrow> k8s_obj \<Rightarrow> 's prog" where
  "IgHandler_add R E obj =
     (case as_ingress obj of
        None \<Rightarrow> skip
      | Some ingressObj \<Rightarrow>
          (let namespace = Namespace ingressObj;
               ingressClass = fst (ExtractIngressClassName obj)
           in case included E namespace ingressClass of
                None \<Rightarrow> panic
              | Some False \<Rightarrow> skip
              | Some True \<Rightarrow>
                  (let nameversion = ConstructNameVersionString namespace (Name ingressObj)
                         (ResourceVersion ingressObj);
                       (snippet, snippetErr) = ExtractServerSnippet (Annotations ingressObj)
                   in block
                     [guarded (snippetErr = None) (DBOneSAdd R (RedisClient E) nameversion snippet),
                      case DefaultBackend (Spec ingressObj) of
                        None \<Rightarrow> skip
                      | Some be \<Rightarrow>
                          (case Service be of
                             None \<Rightarrow> panic
                           | Some svc \<Rightarrow>
                               (let svcport = service_port namespace svc in block
                                  [add_route R (RedisClient E) nameversion snippetErr
                                     (default_hostPath ''http'') svcport,
                                   add_route R (RedisClient E) nameversion snippetErr
                                     (default_hostPath ''https'') svcport])),
                      for_each_path (Spec ingressObj) (\<lambda>hostPath svc.
                        case svc of
                          None \<Rightarrow> panic
                        | Some svc \<Rightarrow>
                            add_route R (RedisClient E) nameversion snippetErr hostPath
                              (service_port namespace svc))])))"

definition IgHandler_Add :: "'s redis_api \<Rightarrow> Endpoint \<Rightarrow> k8s_obj \<Rightarrow> 's prog" where
  "IgHandler_Add R E obj = block [IgHandler_add R E obj, PrintAllKeys R (RedisClient E)]"

section \<open>Delete\<close>

definition rem_route :: "'s redis_api \<Rightarrow> Client \<Rightarrow> string \<Rightarrow> string option \<Rightarrow> string \<Rightarrow> string \<Rightarrow> 's prog" where
  "rem_route R c nameversion snippetErr hostPath svcport =
     block [DBOneSRem R c hostPath svcport,
            guarded (snippetErr = None) (DBOneSRem R c hostPath nameversion)]"

definition IgHandler_delete :: "'s redis_api \<Rightarrow> Endpoint \<Rightarrow> k8s_obj \<Rightarrow> 's prog" where
  "IgHandler_delete R E obj =
     (case as_ingress obj of
        None \<Rightarrow> skip
      | Some ingressObj \<Rightarrow>
          (let namespace = Namespace ingressObj;
               ingressClass = fst (ExtractIngressClassName obj)
           in case included E namespace ingressClass of
                None \<Rightarrow> panic
              | Some False \<Rightarrow> skip
              | Some True \<Rightarrow>
                  (let nameversion = ConstructNameVersionString namespace (Name ingressObj)
                         (ResourceVersion ingressObj);
                       (_, snippetErr) = ExtractServerSnippet (Annotations ingressObj)
                   in block
                     [case DefaultBackend (Spec ingressObj) of
                        None \<Rightarrow> skip
                      | Some be \<Rightarrow>
                          (case Service be of
                             None \<Rightarrow> panic
                           | Some svc \<Rightarrow>
                               (let svcport = service_port namespace svc in block
                                  [rem_route R (RedisClient E) nameversion snippetErr
                                     (default_hostPath ''http'') svcport,
                                   rem_route R (RedisClient E) nameversion snippetErr
                                     (default_hostPath ''https'') svcport])),
                      for_each_path (Spec ingressObj) (\<lambda>hostPath svc.
                        case svc of
                          None \<Rightarrow> panic
                        | Some svc \<Rightarrow>
                            rem_route R (RedisClient E) nameversion snippetErr hostPath
                              (service_port namespace svc))])))"

definition IgHandler_Delete :: "'s redis_api \<Rightarrow> Endpoint \<Rightarrow> k8s_obj \<Rightarrow> 's prog" where
  "IgHandler_Delete R E obj = block [IgHandler_delete R E obj, PrintAllKeys R (RedisClient E)]"

section \<open>Update\<close>

text \<open>
  The local map \<open>m\<close> of \<open>update\<close> (temporary key to routing key) is part of the state the
  update's statements work on.
\<close>

type_synonym 's update_state = "'s \<times> (string, string) gomap"

definition on_redis :: "'s prog \<Rightarrow> 's update_state prog" where
  "on_redis p = (\<lambda>(s, m). case p s of Ok s' \<Rightarrow> Ok (s', m) | Panic s' \<Rightarrow> Panic (s', m))"

definition set_m :: "string \<Rightarrow> string \<Rightarrow> 's update_state prog" where
  "set_m k v = (\<lambda>(s, m). Ok (s, gm_set k v m))"

text \<open>
  The old object: each routing key is copied to its temporary key, from which the old values are
  removed. The service is dereferenced after the copy.
\<close>

definition copy_route :: "'s redis_api \<Rightarrow> Client \<Rightarrow> string \<Rightarrow> 's update_state prog" where
  "copy_route R c hostPath =
     block [on_redis (DBOneSUnionStore R c (temp_key hostPath) hostPath),
            set_m (temp_key hostPath) hostPath]"

definition rem_temp_route ::
    "'s redis_api \<Rightarrow> Client \<Rightarrow> string \<Rightarrow> string option \<Rightarrow> string \<Rightarrow> string \<Rightarrow> 's update_state prog" where
  "rem_temp_route R c nameversion snippetErr hostPath svcport =
     block [on_redis (DBOneSRem R c (temp_key hostPath) svcport),
            guarded (snippetErr = None) (on_redis (DBOneSRem R c (temp_key hostPath) nameversion))]"

definition IgHandler_update_old ::
    "'s redis_api \<Rightarrow> Endpoint \<Rightarrow> k8s_obj \<Rightarrow> Ingress \<Rightarrow> 's update_state prog" where
  "IgHandler_update_old R E obj ingressObj =
     (let namespace = Namespace ingressObj;
          ingressClass = fst (ExtractIngressClassName obj)
      in case included E namespace ingressClass of
           None \<Rightarrow> panic
         | Some False \<Rightarrow> skip
         | Some True \<Rightarrow>
             (let nameversion = ConstructNameVersionString namespace (Name ingressObj)
                    (ResourceVersion ingressObj);
                  (_, snippetErr) = ExtractServerSnippet (Annotations ingressObj)
              in block
                [case DefaultBackend (Spec ingressObj) of
                   None \<Rightarrow> skip
                 | Some be \<Rightarrow> block
                     [copy_route R (RedisClient E) (default_hostPath ''http''),
                      case Service be of
                        None \<Rightarrow> panic
                      | Some svc \<Rightarrow>
                          (let svcport = service_port namespace svc in block
                             [rem_temp_route R (RedisClient E) nameversion snippetErr
                                (default_hostPath ''http'') svcport,
                              copy_route R (RedisClient E) (default_hostPath ''https''),
                              rem_temp_route R (RedisClient E) nameversion snippetErr
                                (default_hostPath ''https'') svcport])],
                 for_each_path (Spec ingressObj) (\<lambda>hostPath svc. block
                   [copy_route R (RedisClient E) hostPath,
                    case svc of
                      None \<Rightarrow> panic
                    | Some svc \<Rightarrow>
                        rem_temp_route R (RedisClient E) nameversion snippetErr hostPath
                          (service_port namespace svc)])]))"

text \<open>The new object: its values are added to the temporary keys.\<close>

definition add_temp_route ::
    "'s redis_api \<Rightarrow> Client \<Rightarrow> string \<Rightarrow> string option \<Rightarrow> string \<Rightarrow> string \<Rightarrow> 's update_state prog" where
  "add_temp_route R c nameversion snippetErr hostPath svcport =
     block [on_redis (DBOneSAdd R c (temp_key hostPath) svcport),
            set_m (temp_key hostPath) hostPath,
            guarded (snippetErr = None) (on_redis (DBOneSAdd R c (temp_key hostPath) nameversion))]"

definition IgHandler_update_new ::
    "'s redis_api \<Rightarrow> Endpoint \<Rightarrow> k8s_obj \<Rightarrow> Ingress \<Rightarrow> 's update_state prog" where
  "IgHandler_update_new R E newObj newIngressObj =
     (let newNamespace = Namespace newIngressObj;
          newIngressClass = fst (ExtractIngressClassName newObj)
      in case included E newNamespace newIngressClass of
           None \<Rightarrow> panic
         | Some False \<Rightarrow> skip
         | Some True \<Rightarrow>
             (let nameversion = ConstructNameVersionString newNamespace (Name newIngressObj)
                    (ResourceVersion newIngressObj);
                  (newSnippet, newSnippetErr) = ExtractServerSnippet (Annotations newIngressObj)
              in block
                [guarded (newSnippetErr = None)
                   (on_redis (DBOneSAdd R (RedisClient E) nameversion newSnippet)),
                 case DefaultBackend (Spec newIngressObj) of
                   None \<Rightarrow> skip
                 | Some be \<Rightarrow>
                     (case Service be of
                        None \<Rightarrow> panic
                      | Some svc \<Rightarrow>
                          (let svcport = service_port newNamespace svc in block
                             [add_temp_route R (RedisClient E) nameversion newSnippetErr
                                (default_hostPath ''http'') svcport,
                              add_temp_route R (RedisClient E) nameversion newSnippetErr
                                (default_hostPath ''https'') svcport])),
                 for_each_path (Spec newIngressObj) (\<lambda>hostPath svc.
                   case svc of
                     None \<Rightarrow> panic
                   | Some svc \<Rightarrow>
                       add_temp_route R (RedisClient E) nameversion newSnippetErr hostPath
                         (service_port newNamespace svc))]))"

text \<open>
  The last loop ranges over \<open>m\<close>, in the order \<open>ord\<close>: each routing key is overwritten with
  the members of its temporary key, which is then deleted.
\<close>

definition swap_keys :: "'s redis_api \<Rightarrow> Client \<Rightarrow> (string \<times> string) list \<Rightarrow> 's prog" where
  "swap_keys R c kvs = for_each (\<lambda>(key, value). block
     [DBOneSUnionStore R c value key, DBOneDel R c key]) kvs"



definition IgHandler_update ::
    "map_order \<Rightarrow> 's redis_api \<Rightarrow> Endpoint \<Rightarrow> k8s_obj \<Rightarrow> k8s_obj \<Rightarrow> 's prog" where
  "IgHandler_update ord R E obj newObj s =
     (case as_ingress obj of
        None \<Rightarrow> Ok s
      | Some ingressObj \<Rightarrow>
          (case as_ingress newObj of
             None \<Rightarrow> Ok s
           | Some newIngressObj \<Rightarrow>
               (case block [IgHandler_update_old R E obj ingressObj,
                            IgHandler_update_new R E newObj newIngressObj] (s, []) of
                  Panic (s', m) \<Rightarrow> Panic s'
                | Ok (s', m) \<Rightarrow> swap_keys R (RedisClient E) (ord m) s')))"

definition IgHandler_Update ::
    "map_order \<Rightarrow> 's redis_api \<Rightarrow> Endpoint \<Rightarrow> k8s_obj \<Rightarrow> k8s_obj \<Rightarrow> 's prog" where
  "IgHandler_Update ord R E obj newObj =
     block [IgHandler_update ord R E obj newObj, PrintAllKeys R (RedisClient E)]"

definition IgHandler :: "map_order \<Rightarrow> 's redis_api \<Rightarrow> Endpoint \<Rightarrow> (k8s_obj, 's) EventHandler" where
  "IgHandler ord R E = \<lparr>Add = IgHandler_Add R E, Update = IgHandler_Update ord R E,
     Delete = IgHandler_Delete R E, GetResourceName = ''ingresses''\<rparr>"

end
