(* ===== verification/Ingress_Table.thy ===== *)
theory Ingress_Table
  imports Ingress_Handler
begin

text \<open>
  The routing table as the ingress handler is meant to maintain it, and the proof that the three
  operations do to database 1 what the table's functions say: a complete ingress contributes a
  list of routes, the handlers' loops are loops over that list, and each loop is a fold over the
  abstract database with a closed form.
\<close>

section \<open>Routes of an ingress\<close>

definition path_complete :: "HTTPIngressPath \<Rightarrow> bool" where
  "path_complete p \<longleftrightarrow> HTTPPathType p \<noteq> None \<and> Service (Backend p) \<noteq> None"

definition rule_complete :: "IngressRule \<Rightarrow> bool" where
  "rule_complete r = (case HTTP r of None \<Rightarrow> False | Some paths \<Rightarrow> list_all path_complete paths)"

text \<open>A complete ingress has every pointer set that the handler follows.\<close>

definition ig_complete :: "Ingress \<Rightarrow> bool" where
  "ig_complete ig \<longleftrightarrow>
     (case DefaultBackend (Spec ig) of None \<Rightarrow> True | Some be \<Rightarrow> Service be \<noteq> None)
     \<and> list_all rule_complete (Rules (Spec ig))"

definition path_route :: "string \<Rightarrow> string \<Rightarrow> string \<Rightarrow> HTTPIngressPath \<Rightarrow> (string \<times> string) list" where
  "path_route namespace scheme host p =
     (case HTTPPathType p of
        None \<Rightarrow> []
      | Some t \<Rightarrow>
          (case Service (Backend p) of
             None \<Rightarrow> []
           | Some svc \<Rightarrow> [(ConstructHostPathString scheme host (Path p) t, service_port namespace svc)]))"

definition rule_routes :: "string \<Rightarrow> (string, string) gomap \<Rightarrow> IngressRule \<Rightarrow> (string \<times> string) list" where
  "rule_routes namespace tlsHosts rule =
     (case HTTP rule of
        None \<Rightarrow> []
      | Some paths \<Rightarrow>
          concat (map (path_route namespace (rule_scheme tlsHosts (rule_host rule)) (rule_host rule)) paths))"

definition path_routes :: "string \<Rightarrow> IngressSpec \<Rightarrow> (string \<times> string) list" where
  "path_routes namespace spec = concat (map (rule_routes namespace (tls_hosts (TLS spec))) (Rules spec))"

definition default_routes :: "string \<Rightarrow> IngressSpec \<Rightarrow> (string \<times> string) list" where
  "default_routes namespace spec =
     (case DefaultBackend spec of
        None \<Rightarrow> []
      | Some be \<Rightarrow>
          (case Service be of
             None \<Rightarrow> []
           | Some svc \<Rightarrow>
               [(default_hostPath ''http'', service_port namespace svc),
                (default_hostPath ''https'', service_port namespace svc)]))"

text \<open>Routing key and service, in the order of the handler's loops.\<close>

definition ig_routes :: "Ingress \<Rightarrow> (string \<times> string) list" where
  "ig_routes ig = default_routes (Namespace ig) (Spec ig) @ path_routes (Namespace ig) (Spec ig)"

definition ig_nameversion :: "Ingress \<Rightarrow> string" where
  "ig_nameversion ig = ConstructNameVersionString (Namespace ig) (Name ig) (ResourceVersion ig)"

definition ig_has_snippet :: "Ingress \<Rightarrow> bool" where
  "ig_has_snippet ig \<longleftrightarrow> snd (ExtractServerSnippet (Annotations ig)) = None"

text \<open>The values one route puts under its key.\<close>

definition route_vals :: "Ingress \<Rightarrow> string \<Rightarrow> string list" where
  "route_vals ig svcport = svcport # (if ig_has_snippet ig then [ig_nameversion ig] else [])"

text \<open>The routes with all their values.\<close>

definition route_rows :: "Ingress \<Rightarrow> (string \<times> string list) list" where
  "route_rows ig = map (\<lambda>(hp, sp). (hp, route_vals ig sp)) (ig_routes ig)"

text \<open>Key and value pairs: of the routes, and of the snippet itself.\<close>

definition route_entries :: "Ingress \<Rightarrow> (string \<times> string) list" where
  "route_entries ig = concat (map (\<lambda>(hp, sp). map (Pair hp) (route_vals ig sp)) (ig_routes ig))"

definition snippet_entries :: "Ingress \<Rightarrow> (string \<times> string) list" where
  "snippet_entries ig =
     (if ig_has_snippet ig
      then [(ig_nameversion ig, fst (ExtractServerSnippet (Annotations ig)))] else [])"

text \<open>The class and the decision whether the controller handles an ingress.\<close>

definition ig_class :: "Ingress \<Rightarrow> string" where
  "ig_class ig = (case IngressClassName (Spec ig) of None \<Rightarrow> [] | Some c \<Rightarrow> c)"

definition ig_included :: "Endpoint \<Rightarrow> Ingress \<Rightarrow> bool option" where
  "ig_included E ig = included E (Namespace ig) (ig_class ig)"

lemma ExtractIngressClassName_class: "as_ingress obj = Some ig \<Longrightarrow> fst (ExtractIngressClassName obj) = ig_class ig"
  by (simp add: ExtractIngressClassName_def ig_class_def split: option.splits)

text \<open>The ingress an event is about, when the controller handles it.\<close>

definition watched_ingress :: "Endpoint \<Rightarrow> k8s_obj \<Rightarrow> Ingress option" where
  "watched_ingress E obj =
     (case as_ingress obj of
        None \<Rightarrow> None
      | Some ig \<Rightarrow> if ig_included E ig = Some True then Some ig else None)"

definition watched :: "(Ingress \<Rightarrow> 'a list) \<Rightarrow> Endpoint \<Rightarrow> k8s_obj \<Rightarrow> 'a list" where
  "watched f E obj = (case watched_ingress E obj of None \<Rightarrow> [] | Some ig \<Rightarrow> f ig)"

text \<open>No panic: the class can be looked at, and a handled ingress is complete.\<close>

definition ig_safe :: "Endpoint \<Rightarrow> k8s_obj \<Rightarrow> bool" where
  "ig_safe E obj =
     (case as_ingress obj of
        None \<Rightarrow> True
      | Some ig \<Rightarrow>
          (case ig_included E ig of None \<Rightarrow> False | Some b \<Rightarrow> b \<longrightarrow> ig_complete ig))"

lemma keys_route_entries: "fst ` set (route_entries ig) = fst ` set (ig_routes ig)"
  by (force simp: route_entries_def route_vals_def)

lemma ig_routes_key:
  assumes "hp \<in> fst ` set (ig_routes ig)"
  shows "\<not> is_temp hp \<and> hp \<noteq> ConstructNameVersionString ns n v"
proof -
  obtain s h p t where "hp = ConstructHostPathString s h p t"
    using assms by (auto simp: ig_routes_def default_routes_def path_routes_def rule_routes_def
        path_route_def default_hostPath_def split: option.splits)
  then show ?thesis by simp
qed

section \<open>The loops are loops over the routes\<close>

lemma for_each_path_routes:
  assumes body: "\<And>hp svc. body hp (Some svc) = f hp (service_port namespace svc)"
    and complete: "list_all rule_complete (Rules spec)"
  shows "for_each_path spec body = for_each (\<lambda>(hp, sp). f hp sp) (path_routes namespace spec)"
proof -
  have path: "(case HTTPPathType p of None \<Rightarrow> panic | Some t \<Rightarrow>
        body (ConstructHostPathString scheme host (Path p) t) (Service (Backend p)))
      = for_each (\<lambda>(hp, sp). f hp sp) (path_route namespace scheme host p)"
    if "path_complete p" for p scheme host
    using that by (auto simp: path_complete_def path_route_def body)
  show ?thesis
    unfolding for_each_path_def path_routes_def Let_def for_each_concat for_each_map
  proof (rule for_each_cong [OF refl])
    fix rule
    assume "rule \<in> set (Rules spec)"
    with complete obtain paths where "HTTP rule = Some paths" "list_all path_complete paths"
      by (auto simp: list_all_iff rule_complete_def split: option.splits)
    then show "(case HTTP rule of None \<Rightarrow> panic | Some paths \<Rightarrow>
        for_each (\<lambda>httpPath. case HTTPPathType httpPath of None \<Rightarrow> panic
          | Some pathType \<Rightarrow> body (ConstructHostPathString
              (rule_scheme (tls_hosts (TLS spec)) (rule_host rule)) (rule_host rule) (Path httpPath) pathType)
              (Service (Backend httpPath))) paths)
      = for_each (\<lambda>(hp, sp). f hp sp) (rule_routes namespace (tls_hosts (TLS spec)) rule)"
      by (simp add: rule_routes_def for_each_concat for_each_map list_all_iff path cong: for_each_cong)
  qed
qed

text \<open>The default backend and the rules together, whatever is done for one route.\<close>

lemma for_each_route:
  assumes complete: "ig_complete ig"
    and body: "\<And>hp svc. body hp (Some svc) = f hp (service_port (Namespace ig) svc)"
    and dflt: "\<And>be svc. Service be = Some svc \<Longrightarrow>
      b be = seq (f (default_hostPath ''http'') (service_port (Namespace ig) svc))
               (f (default_hostPath ''https'') (service_port (Namespace ig) svc))"
  shows "seq (case DefaultBackend (Spec ig) of None \<Rightarrow> skip | Some be \<Rightarrow> b be)
      (for_each_path (Spec ig) body) = for_each (\<lambda>(hp, sp). f hp sp) (ig_routes ig)"
proof -
  have rules: "list_all rule_complete (Rules (Spec ig))" using complete by (simp add: ig_complete_def)
  note paths = for_each_path_routes [of body f, OF body rules]
  show ?thesis
  proof (cases "DefaultBackend (Spec ig)")
    case None
    then show ?thesis by (simp add: paths ig_routes_def default_routes_def)
  next
    case (Some be)
    with complete obtain svc where "Service be = Some svc" by (auto simp: ig_complete_def)
    with Some show ?thesis
      by (simp add: paths ig_routes_def default_routes_def dflt for_each_append seq_assoc)
  qed
qed

lemmas for_each_route_beta = for_each_route [unfolded case_prod_unfold]

text \<open>Values of a route, and the snippet, as loops.\<close>

lemma entries_loop:
  "for_each (\<lambda>(k, v). g k v) (route_entries ig)
   = for_each (\<lambda>(hp, sp). for_each (g hp) (route_vals ig sp)) (ig_routes ig)"
  by (simp add: route_entries_def for_each_concat for_each_map case_prod_unfold)

lemma rows_loop:
  "for_each (\<lambda>(hp, vals). g hp vals) (route_rows ig)
   = for_each (\<lambda>(hp, sp). g hp (route_vals ig sp)) (ig_routes ig)"
  by (simp add: route_rows_def for_each_map case_prod_unfold)

lemma snippet_loop:
  "for_each (\<lambda>(k, v). g k v) (snippet_entries ig)
   = guarded (ig_has_snippet ig) (g (ig_nameversion ig) (fst (ExtractServerSnippet (Annotations ig))))"
  by (simp add: snippet_entries_def)

lemma add_route_loop:
  "add_route R c (ig_nameversion ig) (snd (ExtractServerSnippet (Annotations ig))) hp sp
   = for_each (DBOneSAdd R c hp) (route_vals ig sp)"
  by (simp add: add_route_def route_vals_def ig_has_snippet_def guarded_def)

lemma rem_route_loop:
  "rem_route R c (ig_nameversion ig) (snd (ExtractServerSnippet (Annotations ig))) hp sp
   = for_each (DBOneSRem R c hp) (route_vals ig sp)"
  by (simp add: rem_route_def route_vals_def ig_has_snippet_def guarded_def)

text \<open>The two cases of a safe object: not handled, or handled and complete.\<close>

lemma ig_safe_cases:
  assumes "ig_safe E obj"
  obtains (not_handled) "watched_ingress E obj = None"
      "\<And>ig. as_ingress obj = Some ig \<Longrightarrow>
         included E (Namespace ig) (fst (ExtractIngressClassName obj)) = Some False"
    | (handled) ig where "watched_ingress E obj = Some ig" "as_ingress obj = Some ig"
      "included E (Namespace ig) (fst (ExtractIngressClassName obj)) = Some True" "ig_complete ig"
  using assms
  by (auto simp: ig_safe_def watched_ingress_def ig_included_def ExtractIngressClassName_class
      split: option.splits if_splits)

lemma seq_cong: "q = q' \<Longrightarrow> seq p q = seq p q'"
  by simp

lemma IgHandler_add_safe:
  assumes "ig_safe E obj"
  shows "IgHandler_add R E obj =
    for_each (\<lambda>(k, v). DBOneSAdd R (RedisClient E) k v)
      (watched snippet_entries E obj @ watched route_entries E obj)"
  using assms
proof (cases rule: ig_safe_cases)
  case not_handled
  then show ?thesis
    by (simp add: IgHandler_add_def watched_def split: option.split)
next
  case (handled ig)
  note [simp] = handled
  show ?thesis
    by ((simp add: IgHandler_add_def watched_def for_each_append entries_loop snippet_loop
          ig_has_snippet_def ig_nameversion_def [symmetric] split_beta Let_def,
        rule seq_cong, rule for_each_route for_each_route_beta); simp add: add_route_loop Let_def)
qed

lemma IgHandler_delete_safe:
  assumes "ig_safe E obj"
  shows "IgHandler_delete R E obj =
    for_each (\<lambda>(k, v). DBOneSRem R (RedisClient E) k v) (watched route_entries E obj)"
  using assms
proof (cases rule: ig_safe_cases)
  case not_handled
  then show ?thesis
    by (simp add: IgHandler_delete_def watched_def split: option.split)
next
  case (handled ig)
  note [simp] = handled
  show ?thesis
    by ((simp add: IgHandler_delete_def watched_def entries_loop
          ig_nameversion_def [symmetric] split_beta Let_def,
        rule for_each_route for_each_route_beta); simp add: rem_route_loop Let_def)
qed

text \<open>One route in the two halves of an update.\<close>

definition old_route :: "'s redis_api \<Rightarrow> Client \<Rightarrow> string list \<Rightarrow> string \<Rightarrow> 's update_state prog" where
  "old_route R c vals hp = block
     [on_redis (DBOneSUnionStore R c (temp_key hp) hp), set_m (temp_key hp) hp,
      for_each (\<lambda>v. on_redis (DBOneSRem R c (temp_key hp) v)) vals]"

definition new_route :: "'s redis_api \<Rightarrow> Client \<Rightarrow> string list \<Rightarrow> string \<Rightarrow> 's update_state prog" where
  "new_route R c vals hp = block
     [on_redis (DBOneSAdd R c (temp_key hp) (hd vals)), set_m (temp_key hp) hp,
      for_each (\<lambda>v. on_redis (DBOneSAdd R c (temp_key hp) v)) (tl vals)]"

lemma old_route_loop:
  "seq (copy_route R c hp)
     (rem_temp_route R c (ig_nameversion ig) (snd (ExtractServerSnippet (Annotations ig))) hp sp)
   = old_route R c (route_vals ig sp) hp"
  by (simp add: copy_route_def rem_temp_route_def old_route_def route_vals_def ig_has_snippet_def
      guarded_def seq_assoc)

lemma new_route_loop:
  "add_temp_route R c (ig_nameversion ig) (snd (ExtractServerSnippet (Annotations ig))) hp sp
   = new_route R c (route_vals ig sp) hp"
  by (simp add: add_temp_route_def new_route_def route_vals_def ig_has_snippet_def
      guarded_def seq_assoc)

lemma IgHandler_update_old_handled:
  assumes "as_ingress obj = Some ig" "ig_safe E obj"
  shows "IgHandler_update_old R E obj ig =
    for_each (\<lambda>(hp, vals). old_route R (RedisClient E) vals hp) (watched route_rows E obj)"
  using assms(2)
proof (cases rule: ig_safe_cases)
  case not_handled
  then show ?thesis
    using assms(1) by (simp add: IgHandler_update_old_def watched_def)
next
  case (handled ig')
  have "ig' = ig" using assms(1) handled by simp
  note [simp] = handled [unfolded this]
  show ?thesis
    by ((simp add: IgHandler_update_old_def watched_def rows_loop
          ig_nameversion_def [symmetric] split_beta Let_def,
        rule for_each_route for_each_route_beta); simp add: old_route_loop seq_assoc [symmetric] Let_def)
qed

lemma IgHandler_update_new_handled:
  assumes "as_ingress obj = Some ig" "ig_safe E obj"
  shows "IgHandler_update_new R E obj ig =
    seq (for_each (\<lambda>(k, v). on_redis (DBOneSAdd R (RedisClient E) k v)) (watched snippet_entries E obj))
      (for_each (\<lambda>(hp, vals). new_route R (RedisClient E) vals hp) (watched route_rows E obj))"
  using assms(2)
proof (cases rule: ig_safe_cases)
  case not_handled
  then show ?thesis
    using assms(1) by (simp add: IgHandler_update_new_def watched_def)
next
  case (handled ig')
  have "ig' = ig" using assms(1) handled by simp
  note [simp] = handled [unfolded this]
  show ?thesis
    by ((simp add: IgHandler_update_new_def watched_def rows_loop snippet_loop ig_has_snippet_def
          ig_nameversion_def [symmetric] split_beta Let_def,
        rule seq_cong, rule for_each_route for_each_route_beta); simp add: new_route_loop Let_def)
qed

section \<open>What the operations do to database 1\<close>

definition entries_add :: "(string \<times> string) list \<Rightarrow> dbs \<Rightarrow> dbs" where
  "entries_add es D = D(1 := (\<lambda>k. D 1 k \<union> {v. (k, v) \<in> set es}))"

definition entries_rem :: "(string \<times> string) list \<Rightarrow> dbs \<Rightarrow> dbs" where
  "entries_rem es D = D(1 := (\<lambda>k. D 1 k - {v. (k, v) \<in> set es}))"

text \<open>
  An update: a key of the old object loses the values of its last route, a key that only the new
  object has starts from nothing, and the values of the new object are added.
\<close>

definition routes_update :: "(string \<times> string list) list \<Rightarrow> (string \<times> string) list
    \<Rightarrow> (string \<times> string list) list \<Rightarrow> dbs \<Rightarrow> dbs" where
  "routes_update old snips new D = D(1 := (\<lambda>k.
     (case map_of (rev old) k of
        Some vals \<Rightarrow> D 1 k - set vals
      | None \<Rightarrow> if k \<in> fst ` set new then {} else D 1 k)
     \<union> {v. (k, v) \<in> set snips \<or> (\<exists>vs. (k, vs) \<in> set new \<and> v \<in> set vs)}))"

lemma fold_entries_add: "fold (\<lambda>(k, v). db_add 1 k v) es D = entries_add es D"
proof (induction es arbitrary: D)
  case (Cons e es)
  then show ?case by (cases e) (auto simp: entries_add_def db_add_def fun_eq_iff split: if_splits)
qed (simp add: entries_add_def)

lemma fold_entries_rem: "fold (\<lambda>(k, v). db_rem 1 k v) es D = entries_rem es D"
proof (induction es arbitrary: D)
  case (Cons e es)
  then show ?case by (cases e) (auto simp: entries_rem_def db_rem_def fun_eq_iff split: if_splits)
qed (simp add: entries_rem_def)

text \<open>The update's statements on a pair of databases and local map.\<close>

definition old_row :: "string \<times> string list \<Rightarrow> dbs \<Rightarrow> dbs" where
  "old_row = (\<lambda>(hp, vals) D. D(1 := (D 1)(temp_key hp := D 1 hp - set vals)))"

definition new_row :: "string \<times> string list \<Rightarrow> dbs \<Rightarrow> dbs" where
  "new_row = (\<lambda>(hp, vals) D. D(1 := (D 1)(temp_key hp := D 1 (temp_key hp) \<union> set vals)))"

definition swap_key :: "string \<times> string \<Rightarrow> dbs \<Rightarrow> dbs" where
  "swap_key = (\<lambda>(key, value) D. db_del 1 key (db_union 1 value key D))"

definition note_row :: "string \<times> 'v \<Rightarrow> (string, string) gomap \<Rightarrow> (string, string) gomap" where
  "note_row = (\<lambda>(hp, _) m. gm_set (temp_key hp) hp m)"

definition keys_plain :: "(string \<times> 'v) list \<Rightarrow> bool" where
  "keys_plain rows \<longleftrightarrow> (\<forall>hp \<in> fst ` set rows. \<not> is_temp hp)"

lemma keys_plain_simps [simp]:
  "keys_plain []" "keys_plain (row # rows) \<longleftrightarrow> \<not> is_temp (fst row) \<and> keys_plain rows"
  "keys_plain (rows @ rows') \<longleftrightarrow> keys_plain rows \<and> keys_plain rows'"
  by (auto simp: keys_plain_def)

lemma plain_neq_temp: "\<not> is_temp k \<Longrightarrow> k \<noteq> temp_key l" "\<not> is_temp k \<Longrightarrow> temp_key l \<noteq> k"
  by auto

lemma fold_old_rows:
  assumes "keys_plain rows"
  shows "fold old_row rows D 1 (temp_key hp) = (case map_of (rev rows) hp of
      Some vals \<Rightarrow> D 1 hp - set vals | None \<Rightarrow> D 1 (temp_key hp))"
    and "\<not> is_temp k \<Longrightarrow> fold old_row rows D 1 k = D 1 k"
    and "d \<noteq> 1 \<Longrightarrow> fold old_row rows D d = D d"
proof -
  have plain: "\<not> is_temp k \<Longrightarrow> fold old_row rows D 1 k = D 1 k" for D k
    using assms by (induction rows arbitrary: D) (auto simp: old_row_def plain_neq_temp)
  then show "\<not> is_temp k \<Longrightarrow> fold old_row rows D 1 k = D 1 k" .
  show "d \<noteq> 1 \<Longrightarrow> fold old_row rows D d = D d"
    by (induction rows arbitrary: D) (auto simp: old_row_def)
  show "fold old_row rows D 1 (temp_key hp) = (case map_of (rev rows) hp of
      Some vals \<Rightarrow> D 1 hp - set vals | None \<Rightarrow> D 1 (temp_key hp))"
    using assms
  proof (induction rows arbitrary: D)
    case (Cons row rows)
    obtain h vals where row: "row = (h, vals)" by (cases row)
    let ?D = "old_row row D"
    have IH: "fold old_row rows ?D 1 (temp_key hp) = (case map_of (rev rows) hp of
        Some vals \<Rightarrow> ?D 1 hp - set vals | None \<Rightarrow> ?D 1 (temp_key hp))"
      using Cons by simp
    show ?case
    proof (cases "map_of (rev rows) hp")
      case None
      with IH row show ?thesis by (auto simp: old_row_def map_add_def)
    next
      case (Some vs)
      then have "hp \<in> fst ` set rows" by (force dest: map_of_SomeD)
      with Cons.prems have "\<not> is_temp hp" by (auto simp: keys_plain_def)
      with Some IH row show ?thesis by (simp add: old_row_def plain_neq_temp map_add_def)
    qed
  qed simp
qed

lemma fold_new_rows:
  shows "fold new_row rows D 1 (temp_key hp) =
      D 1 (temp_key hp) \<union> {v. \<exists>vs. (hp, vs) \<in> set rows \<and> v \<in> set vs}"
    and "\<not> is_temp k \<Longrightarrow> fold new_row rows D 1 k = D 1 k"
    and "d \<noteq> 1 \<Longrightarrow> fold new_row rows D d = D d"
proof -
  show "fold new_row rows D 1 (temp_key hp) =
      D 1 (temp_key hp) \<union> {v. \<exists>vs. (hp, vs) \<in> set rows \<and> v \<in> set vs}"
  proof (induction rows arbitrary: D)
    case (Cons row rows)
    then show ?case by (cases row) (auto simp: new_row_def split: if_splits)
  qed simp
  show "\<not> is_temp k \<Longrightarrow> fold new_row rows D 1 k = D 1 k"
    by (induction rows arbitrary: D) (auto simp: new_row_def plain_neq_temp)
  show "d \<noteq> 1 \<Longrightarrow> fold new_row rows D d = D d"
    by (induction rows arbitrary: D) (auto simp: new_row_def)
qed

text \<open>The local map pairs each temporary key with its routing key.\<close>

definition temp_map :: "(string \<times> string) list \<Rightarrow> bool" where
  "temp_map m \<longleftrightarrow> gm_wf m \<and> (\<forall>(k, hp) \<in> set m. k = temp_key hp \<and> \<not> is_temp hp)"

lemma gm_wf_mem: "gm_wf m \<Longrightarrow> (k, v) \<in> set m \<longleftrightarrow> gm_get m k = Some v"
  by (simp add: gm_wf_def)

lemma fold_note_rows:
  assumes "temp_map m" "keys_plain rows"
  shows "temp_map (fold note_row rows m) \<and> snd ` set (fold note_row rows m) = snd ` set m \<union> fst ` set rows"
  using assms
proof (induction rows arbitrary: m)
  case Nil
  then show ?case by simp
next
  case (Cons row rows)
  obtain hp vals where row: "row = (hp, vals)" by (cases row)
  let ?m = "gm_set (temp_key hp) hp m"
  have wf: "gm_wf m" "gm_wf ?m" using Cons.prems(1) by (simp_all add: temp_map_def)
  have mem: "(k, v) \<in> set ?m \<longleftrightarrow> (if k = temp_key hp then v = hp else (k, v) \<in> set m)" for k v
    using gm_wf_mem [OF wf(1)] gm_wf_mem [OF wf(2)] by (simp only: gm_get_set fun_upd_apply) auto
  have key: "k = temp_key v" if "(k, v) \<in> set m" for k v
    using that Cons.prems(1) by (auto simp: temp_map_def)
  have "temp_map ?m"
    unfolding temp_map_def
  proof (intro conjI ballI)
    fix x
    assume "x \<in> set ?m"
    then obtain k v where x: "x = (k, v)" "if k = temp_key hp then v = hp else (k, v) \<in> set m"
      by (metis mem surj_pair)
    show "case x of (k, hp) \<Rightarrow> k = temp_key hp \<and> \<not> is_temp hp"
    proof (cases "k = temp_key hp")
      case True
      with x Cons.prems(2) row show ?thesis by simp
    next
      case False
      with x Cons.prems(1) show ?thesis by (auto simp: temp_map_def)
    qed
  qed (rule wf(2))
  moreover have "snd ` set ?m = insert hp (snd ` set m)"
  proof -
    have "v \<in> snd ` set ?m \<longleftrightarrow> v = hp \<or> v \<in> snd ` set m" for v
    proof -
      have "v \<in> snd ` set ?m \<longleftrightarrow> (\<exists>k. (k, v) \<in> set ?m)" by force
      also have "\<dots> \<longleftrightarrow> v = hp \<or> (\<exists>k. k \<noteq> temp_key hp \<and> (k, v) \<in> set m)" by (auto simp: mem)
      also have "\<dots> \<longleftrightarrow> v = hp \<or> (\<exists>k. (k, v) \<in> set m)"
        by (metis key temp_key_inj)
      also have "\<dots> \<longleftrightarrow> v = hp \<or> v \<in> snd ` set m" by force
      finally show ?thesis .
    qed
    then show ?thesis by auto
  qed
  ultimately show ?case
    using Cons.IH [of ?m] Cons.prems row by (simp add: note_row_def)
qed

lemma fold_swap_keys:
  assumes "temp_map kvs"
  shows "\<not> is_temp k \<Longrightarrow> fold swap_key kvs D 1 k = (if k \<in> snd ` set kvs then D 1 (temp_key k) else D 1 k)"
    and "fold swap_key kvs D 1 (temp_key hp) = (if hp \<in> snd ` set kvs then {} else D 1 (temp_key hp))"
    and "d \<noteq> 1 \<Longrightarrow> fold swap_key kvs D d = D d"
proof -
  have "(\<not> is_temp k \<longrightarrow> fold swap_key kvs D 1 k = (if k \<in> snd ` set kvs then D 1 (temp_key k) else D 1 k))
    \<and> fold swap_key kvs D 1 (temp_key hp) = (if hp \<in> snd ` set kvs then {} else D 1 (temp_key hp))"
    using assms
  proof (induction kvs arbitrary: D)
    case (Cons kv kvs)
    obtain h where kv: "kv = (temp_key h, h)" "\<not> is_temp h"
      using Cons.prems by (cases kv) (auto simp: temp_map_def)
    have new: "h \<notin> snd ` set kvs" "temp_map kvs"
      using Cons.prems kv by (force simp: temp_map_def gm_wf_def)+
    define E where "E = D(1 := (D 1)(h := D 1 (temp_key h), temp_key h := {}))"
    have step: "fold swap_key (kv # kvs) D = fold swap_key kvs E"
      using kv by (simp add: E_def swap_key_def db_defs plain_neq_temp fun_upd_twist)
    note IH = Cons.IH [OF new(2), of E]
    have E: "E 1 k = (if k = h then D 1 (temp_key h) else D 1 k)" if "\<not> is_temp k" for k
      using plain_neq_temp(1) [OF that] by (simp add: E_def)
    have Et: "E 1 (temp_key hp) = (if hp = h then {} else D 1 (temp_key hp))" for hp
      using kv(2) by (auto simp: E_def)
    have "fold swap_key kvs E 1 k =
        (if k \<in> snd ` set (kv # kvs) then D 1 (temp_key k) else D 1 k)" if k: "\<not> is_temp k"
      using IH(1) [THEN conjunct1, rule_format, OF k] E [OF k] Et [of k] kv new(1)
        plain_neq_temp [OF kv(2), of h] by auto
    moreover have "fold swap_key kvs E 1 (temp_key hp) =
        (if hp \<in> snd ` set (kv # kvs) then {} else D 1 (temp_key hp))"
      using IH(1) [THEN conjunct2] Et [of hp] kv(1) by auto
    ultimately show ?case unfolding step by blast
  qed simp
  then show "\<not> is_temp k \<Longrightarrow> fold swap_key kvs D 1 k = (if k \<in> snd ` set kvs then D 1 (temp_key k) else D 1 k)"
    "fold swap_key kvs D 1 (temp_key hp) = (if hp \<in> snd ` set kvs then {} else D 1 (temp_key hp))"
    by auto
  show "d \<noteq> 1 \<Longrightarrow> fold swap_key kvs D d = D d"
    by (induction kvs arbitrary: D) (auto simp: swap_key_def db_defs)
qed

end
