(* ===== verification/Ingress_Refinement.thy ===== *)
theory Ingress_Refinement
  imports Ingress_Table
begin

text \<open>
  The ingress handler refines the routing table: Add, Delete and Update return normally on safe
  objects and do to the abstract databases what \<open>entries_add\<close>, \<open>entries_rem\<close> and
  \<open>routes_update\<close> say, for every order in which Go ranges over the local map of an update. The
  handler is an instance of the contract \<open>event_handler\<close>.
\<close>

section \<open>An update on the abstract databases\<close>

lemma keys_plain_routes [simp]: "keys_plain (route_rows ig)"
  using ig_routes_key by (fastforce simp: keys_plain_def route_rows_def)

lemma keys_plain_watched_rows [simp]: "keys_plain (watched route_rows E obj)"
  by (simp add: watched_def split: option.split)

lemma keys_plain_watched_snippets [simp]: "keys_plain (watched snippet_entries E obj)"
  by (auto simp: watched_def keys_plain_def snippet_entries_def ig_nameversion_def split: option.split)

lemma watched_key_cases:
  assumes "k \<in> fst ` set (watched f E obj)"
  obtains ig where "k \<in> fst ` set (f ig)"
  using assms by (auto simp: watched_def split: option.splits)

lemma snippet_key_not_route:
  assumes "(k, v) \<in> set (watched snippet_entries E obj)"
  shows "k \<notin> fst ` set (watched route_rows E' obj')"
proof
  assume "k \<in> fst ` set (watched route_rows E' obj')"
  then obtain ig where "k \<in> fst ` set (ig_routes ig)"
    by (rule watched_key_cases) (force simp: route_rows_def)
  from ig_routes_key [OF this] assms show False
    by (auto simp: watched_def snippet_entries_def ig_nameversion_def split: option.splits if_splits)
qed

text \<open>Entries and rows are two views of the same routes.\<close>

lemma entries_rows:
  "(k, v) \<in> set (route_entries ig) \<longleftrightarrow> (\<exists>vs. (k, vs) \<in> set (route_rows ig) \<and> v \<in> set vs)"
proof -
  have "(k, v) \<in> set (route_entries ig) \<longleftrightarrow>
      (\<exists>sp. (k, sp) \<in> set (ig_routes ig) \<and> v \<in> set (route_vals ig sp))"
    unfolding route_entries_def by fastforce
  also have "\<dots> \<longleftrightarrow> (\<exists>vs. (k, vs) \<in> set (route_rows ig) \<and> v \<in> set vs)"
    unfolding route_rows_def by force
  finally show ?thesis .
qed

lemma watched_entries_rows:
  "(k, v) \<in> set (watched route_entries E obj) \<longleftrightarrow>
   (\<exists>vs. (k, vs) \<in> set (watched route_rows E obj) \<and> v \<in> set vs)"
  by (cases "watched_ingress E obj") (simp_all add: watched_def entries_rows)

lemma keys_route_rows: "fst ` set (route_rows ig) = fst ` set (ig_routes ig)"
  by (simp add: route_rows_def image_image case_prod_beta)

lemma watched_keys: "fst ` set (watched route_rows E obj) = fst ` set (watched route_entries E obj)"
  by (cases "watched_ingress E obj") (simp_all add: watched_def keys_route_entries keys_route_rows)

text \<open>No operation leaves a temporary key in use.\<close>

lemma entries_add_clean:
  "temp_clean 1 D \<Longrightarrow> keys_plain es \<Longrightarrow> temp_clean 1 (entries_add es D)"
  by (force simp: temp_clean_def entries_add_def keys_plain_def)

lemma entries_rem_clean: "temp_clean 1 D \<Longrightarrow> temp_clean 1 (entries_rem es D)"
  by (simp add: temp_clean_def entries_rem_def)

lemma routes_update_other:
  assumes "k \<notin> fst ` set old" "k \<notin> fst ` set new" "k \<notin> fst ` set snips"
  shows "routes_update old snips new D 1 k = D 1 k"
proof -
  have "(k, v) \<notin> set snips" "(k, vs) \<notin> set new" for v vs
    using assms(2,3) by (metis fst_conv image_eqI)+
  moreover have "map_of (rev old) k = None" using assms(1) by (simp add: map_of_eq_None_iff)
  ultimately show ?thesis using assms(2) by (simp add: routes_update_def)
qed

lemma no_row:
  assumes "k \<notin> fst ` set old \<union> fst ` set new"
  shows "map_of (rev old) k = None" "{v. \<exists>vs. (k, vs) \<in> set new \<and> v \<in> set vs} = {}"
proof -
  have "(k, vs) \<notin> set new" for vs using assms by (metis UnI2 fst_conv image_eqI)
  then show "{v. \<exists>vs. (k, vs) \<in> set new \<and> v \<in> set vs} = {}" by simp
  show "map_of (rev old) k = None" using assms by (simp add: map_of_eq_None_iff)
qed

lemma keys_plain_temp: "keys_plain rows \<Longrightarrow> is_temp k \<Longrightarrow> k \<notin> fst ` set rows"
  by (auto simp: keys_plain_def)

lemma routes_update_clean:
  assumes "temp_clean 1 D" "keys_plain old" "keys_plain new" "keys_plain snips"
  shows "temp_clean 1 (routes_update old snips new D)"
  unfolding temp_clean_def
proof (intro allI impI)
  fix k
  assume k: "is_temp k"
  show "routes_update old snips new D 1 k = {}"
    by (subst routes_update_other)
      (use assms k in \<open>simp_all add: keys_plain_temp temp_clean_def del: image_iff\<close>)
qed

lemma keys_plain_watched_entries [simp]: "keys_plain (watched route_entries E obj)"
  unfolding keys_plain_def
proof
  fix hp
  assume "hp \<in> fst ` set (watched route_entries E obj)"
  then obtain ig where "hp \<in> fst ` set (ig_routes ig)"
    by (rule watched_key_cases) (simp only: keys_route_entries)
  from ig_routes_key [OF this] show "\<not> is_temp hp" by blast
qed

text \<open>The four steps of an update as one function of the databases.\<close>

lemma update_steps:
  assumes clean: "temp_clean 1 D" and ord: "range_order ord"
    and plain: "keys_plain old" "keys_plain new" "keys_plain snips"
    and fresh: "\<And>k v. (k, v) \<in> set snips \<Longrightarrow> k \<notin> fst ` set old \<and> k \<notin> fst ` set new"
  shows "fold swap_key (ord (fold note_row new (fold note_row old [])))
      (fold new_row new (entries_add snips (fold old_row old D))) = routes_update old snips new D"
    (is "fold swap_key (ord ?m) ?D = ?R")
proof -
  have "temp_map (fold note_row old []) \<and> snd ` set (fold note_row old []) = fst ` set old"
    using fold_note_rows [of "[]" old] plain by (simp add: temp_map_def)
  then have m: "temp_map ?m" "snd ` set ?m = fst ` set old \<union> fst ` set new"
    using fold_note_rows [of "fold note_row old []" new] plain by simp_all
  have om: "temp_map (ord ?m)" "snd ` set (ord ?m) = fst ` set old \<union> fst ` set new"
    using m range_order_set [OF ord] range_order_distinct_keys [OF ord] by (auto simp: temp_map_def)
  note swap = fold_swap_keys [OF om(1)]
  have temp: "?D 1 (temp_key h) = (case map_of (rev old) h of
      Some vals \<Rightarrow> D 1 h - set vals | None \<Rightarrow> {}) \<union> {v. \<exists>vs. (h, vs) \<in> set new \<and> v \<in> set vs}" for h
  proof -
    have "(temp_key h, v) \<notin> set snips" for v using plain(3) by (force simp: keys_plain_def)
    then show ?thesis
      using fold_old_rows(1) [OF plain(1)] temp_cleanD [OF clean]
      by (simp add: fold_new_rows(1) entries_add_def split: option.split)
  qed
  have flat: "?D 1 k = D 1 k \<union> {v. (k, v) \<in> set snips}" if "\<not> is_temp k" for k
    using that fold_old_rows(2) [OF plain(1) that] by (simp add: fold_new_rows(2) entries_add_def)
  have "fold swap_key (ord ?m) ?D d k = ?R d k" for d k
  proof (cases "d = 1")
    case False
    then show ?thesis
      by (simp add: swap fold_new_rows(3) entries_add_def fold_old_rows(3) [OF plain(1)] routes_update_def)
  next
    case d: True
    show ?thesis
    proof (cases "is_temp k")
      case True
      then obtain h where h: "k = temp_key h" by (auto simp: is_temp_iff)
      have R: "?R 1 k = {}"
        using routes_update_clean [OF clean plain] True by (simp add: temp_clean_def)
      show ?thesis
      proof (cases "h \<in> fst ` set old \<union> fst ` set new")
        case True
        then show ?thesis unfolding d R unfolding h swap(2) om(2) by simp
      next
        case False
        with no_row [OF False] show ?thesis unfolding d R unfolding h swap(2) om(2) temp by simp
      qed
    next
      case False
      show ?thesis
      proof (cases "k \<in> fst ` set old \<union> fst ` set new")
        case True
        then have "{v. (k, v) \<in> set snips} = {}" using fresh by blast
        with True show ?thesis
          unfolding d swap(1) [OF False] om(2) temp routes_update_def
          by (auto simp: map_of_eq_None_iff split: option.split)
      next
        case new: False
        with no_row [OF new] show ?thesis
          unfolding d swap(1) [OF False] om(2) flat [OF False] routes_update_def by auto
      qed
    qed
  qed
  then show ?thesis by blast
qed

section \<open>The operations\<close>

text \<open>A state of the update: the server is up; the view is the databases and the local map.\<close>

lemma fold_map_prod: "fold (\<lambda>x. map_prod (f x) (g x)) xs a = map_prod (fold f xs) (fold g xs) a"
  by (induction xs arbitrary: a) (auto simp: map_prod_def split: prod.splits)

lemma fold_map_prod_id: "fold (\<lambda>x. map_prod (f x) (\<lambda>m. m)) xs a = map_prod (fold f xs) (\<lambda>m. m) a"
  by (induction xs arbitrary: a) (auto simp: map_prod_def split: prod.splits)

lemma refines_on_redis:
  "refines ok view p g \<Longrightarrow>
   refines (\<lambda>sm. ok (fst sm)) (map_prod view (\<lambda>m. m)) (on_redis p) (map_prod g (\<lambda>m. m))"
  unfolding refines_def on_redis_def by (auto split: prod.split res.split)

lemma refines_set_m:
  "refines (\<lambda>sm. ok (fst sm)) (map_prod view (\<lambda>m. m)) (set_m k v) (map_prod (\<lambda>D. D) (gm_set k v))"
  unfolding refines_def set_m_def by (auto split: prod.split)

lemma route_vals_nonempty: "(hp, vals) \<in> set (watched route_rows E obj) \<Longrightarrow> vals \<noteq> []"
  by (auto simp: watched_def route_rows_def route_vals_def split: option.splits)

context controller_redis
begin

lemmas update_refines = refines_on_redis [OF redis_refines(4) [OF client]]
  refines_on_redis [OF redis_refines(5) [OF client]] refines_on_redis [OF redis_refines(7) [OF client]]

lemma old_route_refines:
  "refines (\<lambda>sm. up (fst sm)) (map_prod members (\<lambda>m. m)) (old_route R (RedisClient E) vals hp)
     (map_prod (old_row (hp, vals)) (note_row (hp, vals)))"
proof (rule refines_cong)
  show "refines (\<lambda>sm. up (fst sm)) (map_prod members (\<lambda>m. m)) (old_route R (RedisClient E) vals hp)
    (\<lambda>a. fold (\<lambda>v. map_prod (db_rem 1 (temp_key hp) v) (\<lambda>m. m)) vals
      (map_prod (\<lambda>D. D) (gm_set (temp_key hp) hp)
        (map_prod (db_union 1 (temp_key hp) hp) (\<lambda>m. m) a)))"
    unfolding old_route_def block.simps seq_skip
    by (intro refines_seq refines_for_each update_refines refines_set_m)
  show "\<And>a. fold (\<lambda>v. map_prod (db_rem 1 (temp_key hp) v) (\<lambda>m. m)) vals
      (map_prod (\<lambda>D. D) (gm_set (temp_key hp) hp)
        (map_prod (db_union 1 (temp_key hp) hp) (\<lambda>m. m) a))
    = map_prod (old_row (hp, vals)) (note_row (hp, vals)) a"
    by (case_tac a) (simp add: fold_map_prod_id old_row_def note_row_def fold_db_rem db_union_def)
qed

lemma new_route_refines:
  assumes "vals \<noteq> []"
  shows "refines (\<lambda>sm. up (fst sm)) (map_prod members (\<lambda>m. m)) (new_route R (RedisClient E) vals hp)
     (map_prod (new_row (hp, vals)) (note_row (hp, vals)))"
proof (rule refines_cong)
  show "refines (\<lambda>sm. up (fst sm)) (map_prod members (\<lambda>m. m)) (new_route R (RedisClient E) vals hp)
    (\<lambda>a. fold (\<lambda>v. map_prod (db_add 1 (temp_key hp) v) (\<lambda>m. m)) (tl vals)
      (map_prod (\<lambda>D. D) (gm_set (temp_key hp) hp)
        (map_prod (db_add 1 (temp_key hp) (hd vals)) (\<lambda>m. m) a)))"
    unfolding new_route_def block.simps seq_skip
    by (intro refines_seq refines_for_each update_refines refines_set_m)
  have "set vals = insert (hd vals) (set (tl vals))" using assms by (cases vals) simp_all
  then show "\<And>a. fold (\<lambda>v. map_prod (db_add 1 (temp_key hp) v) (\<lambda>m. m)) (tl vals)
      (map_prod (\<lambda>D. D) (gm_set (temp_key hp) hp)
        (map_prod (db_add 1 (temp_key hp) (hd vals)) (\<lambda>m. m) a))
    = map_prod (new_row (hp, vals)) (note_row (hp, vals)) a"
    by (case_tac a) (simp add: fold_map_prod_id new_row_def note_row_def fold_db_add db_add_def)
qed

lemma swap_keys_refines:
  "refines up members (swap_keys R (RedisClient E) kvs) (\<lambda>D. fold swap_key kvs D)"
  unfolding swap_keys_def
proof (rule refines_for_each)
  fix kv
  show "refines up members (case kv of (key, value) \<Rightarrow>
      block [DBOneSUnionStore R (RedisClient E) value key, DBOneDel R (RedisClient E) key]) (swap_key kv)"
    unfolding swap_key_def block.simps seq_skip case_prod_beta
    by (intro refines_seq redis_refines client)
qed

lemma rows_refine:
  assumes "\<And>hp vals. (hp, vals) \<in> set rows \<Longrightarrow>
    refines ok view (p hp vals) (map_prod (f (hp, vals)) (note_row (hp, vals)))"
  shows "refines ok view (for_each (\<lambda>(hp, vals). p hp vals) rows)
    (map_prod (fold f rows) (fold note_row rows))"
proof (rule refines_cong)
  show "refines ok view (for_each (\<lambda>(hp, vals). p hp vals) rows)
      (\<lambda>a. fold (\<lambda>row. map_prod (f row) (note_row row)) rows a)"
    using assms by (intro refines_for_each) (auto split: prod.split)
qed (simp add: fold_map_prod)

lemma snippets_refine:
  "refines (\<lambda>sm. up (fst sm)) (map_prod members (\<lambda>m. m))
     (for_each (\<lambda>(k, v). on_redis (DBOneSAdd R (RedisClient E) k v)) es)
     (map_prod (entries_add es) (\<lambda>m. m))"
proof (rule refines_cong)
  show "refines (\<lambda>sm. up (fst sm)) (map_prod members (\<lambda>m. m))
      (for_each (\<lambda>(k, v). on_redis (DBOneSAdd R (RedisClient E) k v)) es)
      (\<lambda>a. fold (\<lambda>e. map_prod ((\<lambda>(k, v). db_add 1 k v) e) (\<lambda>m. m)) es a)"
    by (intro refines_for_each) (auto intro: update_refines split: prod.split)
  have "(\<lambda>D. fold (\<lambda>e. case e of (k, v) \<Rightarrow> db_add 1 k v) es D) = entries_add es"
    by (simp add: fold_entries_add)
  then show "\<And>a. fold (\<lambda>e. map_prod ((\<lambda>(k, v). db_add 1 k v) e) (\<lambda>m. m)) es a
      = map_prod (entries_add es) (\<lambda>m. m) a"
    unfolding fold_map_prod_id by simp
qed

lemma IgHandler_Add_refines:
  assumes "ig_safe E obj"
  shows "refines up members (IgHandler_Add R E obj)
    (entries_add (watched snippet_entries E obj @ watched route_entries E obj))"
proof -
  let ?es = "watched snippet_entries E obj @ watched route_entries E obj"
  have "refines up members (IgHandler_add R E obj) (\<lambda>D. fold (\<lambda>(k, v). db_add 1 k v) ?es D)"
    unfolding IgHandler_add_safe [OF assms]
    by (rule refines_for_each) (auto intro: redis_refines client split: prod.split)
  from refines_seq [OF this PrintAllKeys_refines [OF client]] show ?thesis
    unfolding IgHandler_Add_def fold_entries_add by simp
qed

lemma IgHandler_Delete_refines:
  assumes "ig_safe E obj"
  shows "refines up members (IgHandler_Delete R E obj) (entries_rem (watched route_entries E obj))"
proof -
  have "refines up members (IgHandler_delete R E obj)
      (\<lambda>D. fold (\<lambda>(k, v). db_rem 1 k v) (watched route_entries E obj) D)"
    unfolding IgHandler_delete_safe [OF assms]
    by (rule refines_for_each) (auto intro: redis_refines client split: prod.split)
  from refines_seq [OF this PrintAllKeys_refines [OF client]] show ?thesis
    unfolding IgHandler_Delete_def fold_entries_rem by simp
qed

lemma IgHandler_Update_swaps:
  assumes "as_ingress obj \<noteq> None" "as_ingress newObj \<noteq> None" "ig_safe E obj" "ig_safe E newObj"
  shows "refines up members (IgHandler_Update ord R E obj newObj)
    (\<lambda>D. fold swap_key
      (ord (fold note_row (watched route_rows E newObj) (fold note_row (watched route_rows E obj) [])))
      (fold new_row (watched route_rows E newObj) (entries_add (watched snippet_entries E newObj)
         (fold old_row (watched route_rows E obj) D))))"
proof -
  let ?old = "watched route_rows E obj" and ?new = "watched route_rows E newObj"
    and ?snips = "watched snippet_entries E newObj"
  obtain ig ig' where ig: "as_ingress obj = Some ig" "as_ingress newObj = Some ig'"
    using assms(1,2) by blast
  let ?ok = "\<lambda>sm. up (fst sm)" and ?view = "map_prod members (\<lambda>m. m)"
  have "refines ?ok ?view (IgHandler_update_old R E obj ig)
      (map_prod (fold old_row ?old) (fold note_row ?old))"
    unfolding IgHandler_update_old_handled [OF ig(1) assms(3)]
    by (rule rows_refine) (rule old_route_refines)
  moreover have "refines ?ok ?view (IgHandler_update_new R E newObj ig')
      (\<lambda>a. map_prod (fold new_row ?new) (fold note_row ?new) (map_prod (entries_add ?snips) (\<lambda>m. m) a))"
    unfolding IgHandler_update_new_handled [OF ig(2) assms(4)]
    by (intro refines_seq snippets_refine rows_refine new_route_refines route_vals_nonempty)
  ultimately have both: "refines ?ok ?view
      (block [IgHandler_update_old R E obj ig, IgHandler_update_new R E newObj ig'])
      (\<lambda>a. map_prod (fold new_row ?new) (fold note_row ?new) (map_prod (entries_add ?snips) (\<lambda>m. m)
         (map_prod (fold old_row ?old) (fold note_row ?old) a)))"
    unfolding block.simps seq_skip by (rule refines_seq)
  let ?D = "\<lambda>D. fold new_row ?new (entries_add ?snips (fold old_row ?old D))"
    and ?m = "fold note_row ?new (fold note_row ?old [])"
  have "refines up members (IgHandler_update ord R E obj newObj) (\<lambda>D. fold swap_key (ord ?m) (?D D))"
  proof (rule refinesI)
    fix s
    assume "up s"
    then obtain s1 m where 1: "block [IgHandler_update_old R E obj ig, IgHandler_update_new R E newObj ig']
        (s, []) = Ok (s1, m)" "up s1" "members s1 = ?D (members s)" "m = ?m"
      using refinesD [OF both, of "(s, [])"] by auto
    from refinesD [OF swap_keys_refines 1(2), of "ord m"] 1
    show "\<exists>s'. IgHandler_update ord R E obj newObj s = Ok s' \<and> up s'
        \<and> members s' = fold swap_key (ord ?m) (?D (members s))"
      by (simp add: IgHandler_update_def ig)
  qed
  from refines_seq [OF this PrintAllKeys_refines [OF client]] show ?thesis
    unfolding IgHandler_Update_def by simp
qed

lemma IgHandler_Update_refines:
  assumes "as_ingress obj \<noteq> None" "as_ingress newObj \<noteq> None" "ig_safe E obj" "ig_safe E newObj"
    and "range_order ord"
  shows "refines (\<lambda>s. up s \<and> temp_clean 1 (members s)) members (IgHandler_Update ord R E obj newObj)
    (routes_update (watched route_rows E obj) (watched snippet_entries E newObj)
       (watched route_rows E newObj))"
proof (rule refines_restrict [OF IgHandler_Update_swaps [OF assms(1-4)]])
  fix D
  assume D: "temp_clean 1 D"
  show "fold swap_key
      (ord (fold note_row (watched route_rows E newObj) (fold note_row (watched route_rows E obj) [])))
      (fold new_row (watched route_rows E newObj) (entries_add (watched snippet_entries E newObj)
         (fold old_row (watched route_rows E obj) D)))
    = routes_update (watched route_rows E obj) (watched snippet_entries E newObj)
       (watched route_rows E newObj) D
    \<and> temp_clean 1 (routes_update (watched route_rows E obj) (watched snippet_entries E newObj)
       (watched route_rows E newObj) D)"
    using snippet_key_not_route
    by (intro conjI update_steps routes_update_clean D assms(5)) auto
qed

lemma IgHandler_Update_ignores:
  assumes "as_ingress obj = None \<or> as_ingress newObj = None"
  shows "refines up members (IgHandler_Update ord R E obj newObj) (\<lambda>D. D)"
proof -
  have "IgHandler_update ord R E obj newObj = skip"
    using assms by (auto simp: IgHandler_update_def skip_def fun_eq_iff split: option.split)
  with PrintAllKeys_refines [OF client] show ?thesis by (simp add: IgHandler_Update_def)
qed

end

section \<open>The contract of an event handler\<close>

context controller_redis
begin

lemma IgHandler_Update_keeps:
  assumes "ig_safe E ob" "ig_safe E newOb" "range_order ord" "up s" "temp_clean 1 (members s)"
  shows "\<exists>s'. IgHandler_Update ord R E ob newOb s = Ok s' \<and> up s' \<and> temp_clean 1 (members s')"
proof (cases "as_ingress ob = None \<or> as_ingress newOb = None")
  case True
  obtain s' where "IgHandler_Update ord R E ob newOb s = Ok s'" "up s'" "members s' = members s"
    using refinesD [OF IgHandler_Update_ignores [OF True] assms(4)] by blast
  with assms(5) show ?thesis by simp
next
  case False
  then show ?thesis
    using refinesD [OF IgHandler_Update_refines [OF _ _ assms(1-3)]] assms(4,5) by blast
qed

lemma IgHandler_contract:
  assumes "range_order ord"
  shows "event_handler (IgHandler ord R E) (ig_safe E) (\<lambda>s. up s \<and> temp_clean 1 (members s))"
proof unfold_locales
  fix ob s
  assume ob: "ig_safe E ob" and s: "up s \<and> temp_clean 1 (members s)"
  show "\<exists>s'. Add (IgHandler ord R E) ob s = Ok s' \<and> up s' \<and> temp_clean 1 (members s')"
    using refines_inv [OF IgHandler_Add_refines [OF ob], of s "temp_clean 1"] s
    by (simp add: IgHandler_def entries_add_clean)
  show "\<exists>s'. Delete (IgHandler ord R E) ob s = Ok s' \<and> up s' \<and> temp_clean 1 (members s')"
    using refines_inv [OF IgHandler_Delete_refines [OF ob], of s "temp_clean 1"] s
    by (simp add: IgHandler_def entries_rem_clean)
next
  fix ob newOb s
  assume "ig_safe E ob" "ig_safe E newOb" "up s \<and> temp_clean 1 (members s)"
  then show "\<exists>s'. Update (IgHandler ord R E) ob newOb s = Ok s' \<and> up s' \<and> temp_clean 1 (members s')"
    using IgHandler_Update_keeps [OF _ _ assms] by (simp add: IgHandler_def)
qed

end

text \<open>
  The contract for maps in insertion order; \<open>IgHandler_contract\<close> gives it for any other order.
\<close>

sublocale controller_redis \<subseteq>
  ig: event_handler "IgHandler (\<lambda>m. m) R E" "ig_safe E" "\<lambda>s. up s \<and> temp_clean 1 (members s)"
  by (rule IgHandler_contract) simp

section \<open>Panics\<close>

lemma for_each_path_never:
  assumes "\<not> list_all rule_complete (Rules spec)" "\<And>hp. never_returns (body hp None)"
  shows "never_returns (for_each_path spec body)"
proof -
  obtain rule where rule: "rule \<in> set (Rules spec)" "\<not> rule_complete rule"
    using assms(1) by (auto simp: list_all_iff)
  show ?thesis
    unfolding for_each_path_def Let_def
  proof (rule never_returns_for_each [OF rule(1)])
    let ?scheme = "rule_scheme (tls_hosts (TLS spec)) (rule_host rule)"
    show "never_returns (case HTTP rule of None \<Rightarrow> panic | Some paths \<Rightarrow>
        for_each (\<lambda>httpPath. case HTTPPathType httpPath of None \<Rightarrow> panic
          | Some pathType \<Rightarrow> body (ConstructHostPathString ?scheme (rule_host rule) (Path httpPath) pathType)
              (Service (Backend httpPath))) paths)"
    proof (cases "HTTP rule")
      case (Some paths)
      then obtain path where "path \<in> set paths" "\<not> path_complete path"
        using rule(2) by (auto simp: rule_complete_def list_all_iff)
      with Some assms(2) show ?thesis
        by (auto simp: path_complete_def intro!: never_returns_for_each split: option.split)
    qed simp
  qed
qed

lemma ig_unsafe_cases:
  assumes "\<not> ig_safe E obj"
  obtains (no_manager) ig where "as_ingress obj = Some ig"
      "included E (Namespace ig) (fst (ExtractIngressClassName obj)) = None"
    | (incomplete) ig where "as_ingress obj = Some ig"
      "included E (Namespace ig) (fst (ExtractIngressClassName obj)) = Some True" "\<not> ig_complete ig"
  using assms
  by (auto simp: ig_safe_def ig_included_def ExtractIngressClassName_class split: option.splits if_splits)

text \<open>An incomplete ingress stops either the default backend or the loop over the rules.\<close>

lemma incomplete_never:
  assumes "\<not> ig_complete ig" "\<And>hp. never_returns (body hp None)"
    and "\<And>be. Service be = None \<Longrightarrow> never_returns (b be)"
  shows "never_returns (seq (case DefaultBackend (Spec ig) of None \<Rightarrow> skip | Some be \<Rightarrow> b be)
    (for_each_path (Spec ig) body))"
proof (cases "list_all rule_complete (Rules (Spec ig))")
  case True
  with assms(1) obtain be where "DefaultBackend (Spec ig) = Some be" "Service be = None"
    by (auto simp: ig_complete_def split: option.splits)
  with assms(3) show ?thesis by (auto intro: never_returns_seq)
next
  case False
  from for_each_path_never [of _ body, OF this assms(2)] show ?thesis by (auto intro: never_returns_seq)
qed

lemma IgHandler_add_unsafe:
  assumes "\<not> ig_safe E obj"
  shows "never_returns (IgHandler_add R E obj)"
  using assms
proof (cases rule: ig_unsafe_cases)
  case (incomplete ig)
  then show ?thesis
    unfolding IgHandler_add_def Let_def split_beta incomplete(1,2) option.case bool.case block.simps seq_skip
    by (intro never_returns_seq disjI2 incomplete_never) simp_all
qed (simp_all add: IgHandler_add_def)

lemma IgHandler_delete_unsafe:
  assumes "\<not> ig_safe E obj"
  shows "never_returns (IgHandler_delete R E obj)"
  using assms
proof (cases rule: ig_unsafe_cases)
  case (incomplete ig)
  then show ?thesis
    unfolding IgHandler_delete_def Let_def split_beta incomplete(1,2) option.case bool.case block.simps seq_skip
    by (intro incomplete_never) simp_all
qed (simp_all add: IgHandler_delete_def)

lemma IgHandler_update_old_unsafe:
  "as_ingress obj = Some ig \<Longrightarrow> \<not> ig_safe E obj \<Longrightarrow> never_returns (IgHandler_update_old R E obj ig)"
proof (erule ig_unsafe_cases)
  fix ig'
  assume *: "as_ingress obj = Some ig" "as_ingress obj = Some ig'"
    "included E (Namespace ig') (fst (ExtractIngressClassName obj)) = Some True" "\<not> ig_complete ig'"
  then have "ig' = ig" by simp
  with * show ?thesis
    unfolding IgHandler_update_old_def Let_def split_beta
    by (simp add: seq_assoc) (intro incomplete_never; auto intro: never_returns_seq)
qed (simp add: IgHandler_update_old_def)

lemma IgHandler_update_new_unsafe:
  "as_ingress obj = Some ig \<Longrightarrow> \<not> ig_safe E obj \<Longrightarrow> never_returns (IgHandler_update_new R E obj ig)"
proof (erule ig_unsafe_cases)
  fix ig'
  assume *: "as_ingress obj = Some ig" "as_ingress obj = Some ig'"
    "included E (Namespace ig') (fst (ExtractIngressClassName obj)) = Some True" "\<not> ig_complete ig'"
  then have "ig' = ig" by simp
  with * show ?thesis
    unfolding IgHandler_update_new_def Let_def split_beta
    by simp (intro never_returns_seq disjI2 incomplete_never; simp)
qed (simp add: IgHandler_update_new_def)

text \<open>Whatever Redis answers, an unsafe object ends the handler in a panic.\<close>

lemma IgHandler_unsafe:
  "\<not> ig_safe E obj \<Longrightarrow> \<not> returns (IgHandler_Add R E obj s)"
  "\<not> ig_safe E obj \<Longrightarrow> \<not> returns (IgHandler_Delete R E obj s)"
  "as_ingress obj \<noteq> None \<Longrightarrow> as_ingress newObj \<noteq> None \<Longrightarrow>
    \<not> (ig_safe E obj \<and> ig_safe E newObj) \<Longrightarrow> \<not> returns (IgHandler_Update ord R E obj newObj s)"
proof -
  show "\<not> returns (IgHandler_Add R E obj s)" if "\<not> ig_safe E obj"
    unfolding IgHandler_Add_def block.simps seq_skip
    by (intro seq_never_returns) (simp add: IgHandler_add_unsafe [OF that, unfolded never_returns_def])
  show "\<not> returns (IgHandler_Delete R E obj s)" if "\<not> ig_safe E obj"
    unfolding IgHandler_Delete_def block.simps seq_skip
    by (intro seq_never_returns) (simp add: IgHandler_delete_unsafe [OF that, unfolded never_returns_def])
  assume a: "as_ingress obj \<noteq> None" "as_ingress newObj \<noteq> None" "\<not> (ig_safe E obj \<and> ig_safe E newObj)"
  then obtain ig ig' where ig: "as_ingress obj = Some ig" "as_ingress newObj = Some ig'" by blast
  have "never_returns (block [IgHandler_update_old R E obj ig, IgHandler_update_new R E newObj ig'])"
    using a(3) by (auto intro: never_returns_seq IgHandler_update_old_unsafe [OF ig(1)]
        IgHandler_update_new_unsafe [OF ig(2)])
  then have "\<not> returns (IgHandler_update ord R E obj newObj t)" for t
    unfolding never_returns_def IgHandler_update_def ig option.case
    by (metis (no_types, lifting) prod.exhaust res.exhaust res.simps(6) returns.simps case_prod_conv)
  then show "\<not> returns (IgHandler_Update ord R E obj newObj s)"
    unfolding IgHandler_Update_def block.simps seq_skip by (rule seq_never_returns)
qed

end
