(* ===== verification/Ingress_Properties.thy ===== *)
theory Ingress_Properties
  imports Ingress_Refinement
begin

text \<open>
  The properties of the ingress handler: what each operation does to database 1, when it panics,
  how the operations fit together, and what whole runs do to the routing table.
\<close>

section \<open>Concrete ingresses\<close>

definition ex_backend :: "string \<Rightarrow> IngressBackend" where
  "ex_backend svc = \<lparr>Service = Some \<lparr>SvcName = svc, PortNumber = 80\<rparr>\<rparr>"

definition ex_path :: "string \<Rightarrow> string \<Rightarrow> HTTPIngressPath" where
  "ex_path path svc = \<lparr>Path = path, HTTPPathType = Some PathTypePrefix, Backend = ex_backend svc\<rparr>"

definition ex_ingress :: "string \<Rightarrow> string \<Rightarrow> (string, string) gomap \<Rightarrow> IngressRule list \<Rightarrow> Ingress" where
  "ex_ingress name version annotations rules =
     \<lparr>Name = name, Namespace = ''ns'', ResourceVersion = version, Annotations = annotations,
      Spec = \<lparr>IngressClassName = None, DefaultBackend = None, TLS = [\<lparr>Hosts = [''s.com'']\<rparr>],
        Rules = rules\<rparr>\<rparr>"

text \<open>One ingress with a snippet and a TLS host, its next version, and another ingress.\<close>

definition ex_snippet :: "(string, string) gomap" where
  "ex_snippet = [(AnnotationServerSnippet, ''ts.debug()'')]"

definition ig_one :: Ingress where
  "ig_one = ex_ingress ''one'' ''1'' ex_snippet
     [\<lparr>Host = ''s.com'', HTTP = Some [ex_path ''/a'' ''svc1'', ex_path ''/b'' ''svc2'']\<rparr>]"

definition ig_one_next :: Ingress where
  "ig_one_next = ex_ingress ''one'' ''2'' []
     [\<lparr>Host = ''s.com'', HTTP = Some [ex_path ''/a'' ''svc3'']\<rparr>]"

definition ig_two :: Ingress where
  "ig_two = ex_ingress ''two'' ''1'' [] [\<lparr>Host = ''t.com'', HTTP = Some [ex_path ''/'' ''svc4'']\<rparr>]"

text \<open>An ingress whose backend is a resource, which the API allows: its service is nil.\<close>

definition ig_resource :: Ingress where
  "ig_resource = ex_ingress ''res'' ''1'' [] [\<lparr>Host = ''r.com'', HTTP = Some
     [\<lparr>Path = ''/'', HTTPPathType = Some PathTypePrefix, Backend = \<lparr>Service = None\<rparr>\<rparr>]\<rparr>]"

lemma ex_safe:
  "ig_safe mem_endpoint (IngressObj ig_one)" "ig_safe mem_endpoint (IngressObj ig_one_next)"
  "ig_safe mem_endpoint (IngressObj ig_two)" "\<not> ig_safe mem_endpoint (IngressObj ig_resource)"
  by code_simp+

lemma ex_watched:
  "watched_ingress mem_endpoint (IngressObj ig_one) = Some ig_one"
  "watched_ingress mem_endpoint (IngressObj ig_one_next) = Some ig_one_next"
  "watched_ingress mem_endpoint (IngressObj ig_two) = Some ig_two"
  by code_simp+

lemma ex_rows:
  "route_rows ig_one = [(''P+https://s.com/a'', [''ns:svc1:80'', ''$ns/one/1'']),
     (''P+https://s.com/b'', [''ns:svc2:80'', ''$ns/one/1''])]"
  "route_rows ig_one_next = [(''P+https://s.com/a'', [''ns:svc3:80''])]"
  "route_rows ig_two = [(''P+http://t.com/'', [''ns:svc4:80''])]"
  "snippet_entries ig_one = [(''$ns/one/1'', ''ts.debug()'')]"
  "snippet_entries ig_one_next = []" "snippet_entries ig_two = []"
  by code_simp+

lemma mem_open: "client_open (RedisClient mem_endpoint)"
  by (simp add: mem_endpoint_def)

section \<open>The abstract operations one after the other\<close>

lemma snippets_not_entries:
  assumes "(k, v) \<in> set (watched snippet_entries E obj)"
  shows "(k, w) \<notin> set (watched route_entries E' obj')"
proof
  assume "(k, w) \<in> set (watched route_entries E' obj')"
  then have "k \<in> fst ` set (watched route_entries E' obj')" by force
  with snippet_key_not_route [OF assms, of E' obj'] show False by (simp add: watched_keys)
qed

lemma entries_add_rem:
  assumes "\<And>k v. (k, v) \<in> set es \<Longrightarrow> v \<notin> D 1 k"
    and "\<And>k v w. (k, v) \<in> set snips \<Longrightarrow> (k, w) \<notin> set es"
  shows "entries_rem es (entries_add (snips @ es) D) = entries_add snips D"
proof -
  have "D 1 k \<union> {v. (k, v) \<in> set (snips @ es)} - {v. (k, v) \<in> set es} = D 1 k \<union> {v. (k, v) \<in> set snips}" for k
    using assms by auto
  then show ?thesis by (simp add: entries_rem_def entries_add_def)
qed

lemma routes_update_replaces:
  assumes "distinct (map fst (watched route_rows E obj))"
    and "\<And>k. k \<in> fst ` set (watched route_rows E newObj) \<Longrightarrow> k \<notin> fst ` set (watched route_rows E obj)
      \<Longrightarrow> D 1 k = {}"
  shows "routes_update (watched route_rows E obj) snips (watched route_rows E newObj) D
    = entries_add (snips @ watched route_entries E newObj) (entries_rem (watched route_entries E obj) D)"
proof -
  let ?old = "watched route_rows E obj" and ?new = "watched route_rows E newObj"
  have "(case map_of (rev ?old) k of Some vals \<Rightarrow> D 1 k - set vals
      | None \<Rightarrow> if k \<in> fst ` set ?new then {} else D 1 k)
    = D 1 k - {v. (k, v) \<in> set (watched route_entries E obj)}" (is "?l = ?r") for k
  proof (cases "map_of (rev ?old) k")
    case None
    then have k: "k \<notin> fst ` set ?old" by (simp add: map_of_eq_None_iff)
    then have "(k, v) \<notin> set (watched route_entries E obj)" for v
      unfolding watched_keys by (metis fst_conv image_eqI)
    with None assms(2) k show ?thesis by auto
  next
    case (Some vals)
    have "distinct (map fst (rev ?old))" using assms(1) by (simp add: rev_map [symmetric])
    from map_of_eq_Some_iff [OF this] Some have "(k, vs) \<in> set ?old \<longleftrightarrow> vs = vals" for vs
      by (metis option.inject set_rev)
    with Some show ?thesis by (simp add: watched_entries_rows)
  qed
  then show ?thesis
    by (auto simp: routes_update_def entries_add_def entries_rem_def watched_entries_rows)
qed

section \<open>One operation\<close>

text \<open>
  C10. Adding an ingress returns normally whenever the handler can look at its class and, if it
  handles it, every pointer it follows is set. It adds to database 1, for each route, the service
  and, if the ingress has a snippet, the snippet's key, and under that key the snippet; it changes
  nothing else, and nothing at all for an ingress it does not handle.
\<close>

theorem IgHandler_Add_correct:
  assumes "redis_server R members up" "client_open (RedisClient E)" "up s" "ig_safe E obj"
  shows "\<exists>s'. IgHandler_Add R E obj s = Ok s' \<and> up s' \<and> members s' =
    entries_add (watched snippet_entries E obj @ watched route_entries E obj) (members s)"
  by (rule refinesD [OF controller_redis.IgHandler_Add_refines
      [OF controller_redisI [OF assms(1,2)] assms(4)], OF assms(3)])

theorem IgHandler_Add_correct_witness:
  "\<exists>s'. IgHandler_Add mem_redis mem_endpoint (IngressObj ig_one) mem_empty = Ok s'
    \<and> mem_members s' 1 ''P+https://s.com/a'' = {''ns:svc1:80'', ''$ns/one/1''}"
proof -
  have e: "watched snippet_entries mem_endpoint (IngressObj ig_one) @
      watched route_entries mem_endpoint (IngressObj ig_one) =
      [(''$ns/one/1'', ''ts.debug()''),
       (''P+https://s.com/a'', ''ns:svc1:80''), (''P+https://s.com/a'', ''$ns/one/1''),
       (''P+https://s.com/b'', ''ns:svc2:80''), (''P+https://s.com/b'', ''$ns/one/1'')]"
    by code_simp
  show ?thesis
    using IgHandler_Add_correct [OF mem.redis_server_axioms, OF mem_open mem_empty_up ex_safe(1)]
    unfolding e by (auto simp: entries_add_def)
qed

text \<open>
  C11. Deleting an ingress returns normally under the same condition and removes from each of its
  routing keys the service and the snippet's key, and nothing else.
\<close>

theorem IgHandler_Delete_correct:
  assumes "redis_server R members up" "client_open (RedisClient E)" "up s" "ig_safe E obj"
  shows "\<exists>s'. IgHandler_Delete R E obj s = Ok s' \<and> up s'
    \<and> members s' = entries_rem (watched route_entries E obj) (members s)"
  by (rule refinesD [OF controller_redis.IgHandler_Delete_refines
      [OF controller_redisI [OF assms(1,2)] assms(4)], OF assms(3)])

theorem IgHandler_Delete_correct_witness:
  "\<exists>s'. IgHandler_Delete mem_redis mem_endpoint (IngressObj ig_two)
       (mem_put 1 ''P+http://t.com/'' [''ns:svc4:80'', ''ns:other:80''] mem_empty) = Ok s'
    \<and> mem_members s' 1 ''P+http://t.com/'' = {''ns:other:80''}"
proof -
  have e: "watched route_entries mem_endpoint (IngressObj ig_two) = [(''P+http://t.com/'', ''ns:svc4:80'')]"
    by code_simp
  have p: "mem_up (mem_put 1 ''P+http://t.com/'' [''ns:svc4:80'', ''ns:other:80''] mem_empty)"
    by (simp add: mem_up_put)
  show ?thesis
    using IgHandler_Delete_correct [OF mem.redis_server_axioms, OF mem_open p ex_safe(3)]
    unfolding e by (auto simp: entries_rem_def)
qed

text \<open>
  C9. An update returns normally and, in whatever order Go ranges over its local map, its effect
  on database 1 is: a routing key of the old object loses the values of the old object's last
  route for it, a routing key that only the new object has is emptied, and then the new object's
  values are added; no temporary key is left in use.
\<close>

theorem IgHandler_Update_correct:
  assumes "redis_server R members up" "client_open (RedisClient E)" "up s" "temp_clean 1 (members s)"
    and "as_ingress obj \<noteq> None" "as_ingress newObj \<noteq> None" "ig_safe E obj" "ig_safe E newObj"
    and "range_order ord"
  shows "\<exists>s'. IgHandler_Update ord R E obj newObj s = Ok s' \<and> up s' \<and> temp_clean 1 (members s')
    \<and> members s' = routes_update (watched route_rows E obj) (watched snippet_entries E newObj)
        (watched route_rows E newObj) (members s)"
  using refinesD [OF controller_redis.IgHandler_Update_refines
      [OF controller_redisI [OF assms(1,2)] assms(5-9)]] assms(3,4) by auto

theorem IgHandler_Update_correct_witness:
  "\<exists>s'. IgHandler_Update rev mem_redis mem_endpoint (IngressObj ig_one) (IngressObj ig_one_next)
       (mem_put 1 ''P+https://s.com/a'' [''ns:svc1:80'', ''$ns/one/1''] mem_empty) = Ok s'
    \<and> mem_members s' 1 ''P+https://s.com/a'' = {''ns:svc3:80''}"
proof -
  let ?s = "mem_put 1 ''P+https://s.com/a'' [''ns:svc1:80'', ''$ns/one/1''] mem_empty"
  have p: "mem_up ?s" by (simp add: mem_up_put)
  have c: "temp_clean 1 (mem_members ?s)"
    by (auto simp: temp_clean_def is_temp_def)
  have i: "as_ingress (IngressObj ig_one) \<noteq> None" "as_ingress (IngressObj ig_one_next) \<noteq> None"
    by simp_all
  show ?thesis
    using IgHandler_Update_correct [OF mem.redis_server_axioms, OF mem_open p c i ex_safe(1,2), of rev]
    unfolding watched_def ex_watched option.case ex_rows
    by (auto simp: routes_update_def)
qed

text \<open>
  C13. With an open connection to a server that answers, an operation returns normally exactly on
  safe objects: an ingress the handler handles with a rule without an HTTP section, a path without
  a path type or a backend that is not a service (the API allows a resource) panics, and so does
  any ingress of a watched namespace when there is no manager; an update needs both objects safe.
\<close>

theorem IgHandler_returns_iff:
  assumes "redis_server R members up" "client_open (RedisClient E)" "up s"
    and "as_ingress obj \<noteq> None" "as_ingress newObj \<noteq> None"
  shows "(returns (IgHandler_Add R E obj s) \<longleftrightarrow> ig_safe E obj)
    \<and> (returns (IgHandler_Delete R E obj s) \<longleftrightarrow> ig_safe E obj)
    \<and> (returns (IgHandler_Update ord R E obj newObj s) \<longleftrightarrow> ig_safe E obj \<and> ig_safe E newObj)"
proof -
  note c = controller_redisI [OF assms(1,2)]
  have "returns (IgHandler_Add R E obj s)" "returns (IgHandler_Delete R E obj s)" if "ig_safe E obj"
    by (rule refines_returns [OF controller_redis.IgHandler_Add_refines [OF c that] assms(3)],
        rule refines_returns [OF controller_redis.IgHandler_Delete_refines [OF c that] assms(3)])
  moreover have "returns (IgHandler_Update ord R E obj newObj s)" if "ig_safe E obj" "ig_safe E newObj"
    by (rule refines_returns [OF controller_redis.IgHandler_Update_swaps [OF c assms(4,5) that] assms(3)])
  ultimately have
    "ig_safe E obj \<Longrightarrow> returns (IgHandler_Add R E obj s) \<and> returns (IgHandler_Delete R E obj s)"
    "ig_safe E obj \<Longrightarrow> ig_safe E newObj \<Longrightarrow> returns (IgHandler_Update ord R E obj newObj s)" by auto
  with IgHandler_unsafe(1,2) [of E obj R s] IgHandler_unsafe(3) [OF assms(4,5), of E ord R s]
  show ?thesis by argo
qed

theorem IgHandler_returns_iff_witness:
  "\<not> returns (IgHandler_Add mem_redis mem_endpoint (IngressObj ig_resource) mem_empty)
   \<and> \<not> returns (IgHandler_Update rev mem_redis mem_endpoint (IngressObj ig_resource) (IngressObj ig_one) mem_empty)"
proof -
  have i: "as_ingress (IngressObj ig_resource) \<noteq> None" "as_ingress (IngressObj ig_one) \<noteq> None"
    by simp_all
  show ?thesis
    using IgHandler_returns_iff [OF mem.redis_server_axioms, OF mem_open mem_empty_up i, of rev] ex_safe
    by blast
qed

section \<open>Operations one after the other\<close>

text \<open>
  C32. Deleting what was just added takes the table back to where it was, provided none of the
  ingress's routes was there before; the exception is the snippet, which no operation ever
  removes: it stays under its key.
\<close>

theorem IgHandler_Add_Delete:
  assumes "redis_server R members up" "client_open (RedisClient E)" "up s" "ig_safe E obj"
    and "\<And>k v. (k, v) \<in> set (watched route_entries E obj) \<Longrightarrow> v \<notin> members s 1 k"
  shows "\<exists>s'. block [IgHandler_Add R E obj, IgHandler_Delete R E obj] s = Ok s'
    \<and> members s' = entries_add (watched snippet_entries E obj) (members s)"
proof -
  note c = controller_redisI [OF assms(1,2)]
  have "refines up members (block [IgHandler_Add R E obj, IgHandler_Delete R E obj])
      (\<lambda>D. entries_rem (watched route_entries E obj)
        (entries_add (watched snippet_entries E obj @ watched route_entries E obj) D))"
    unfolding block.simps seq_skip
    by (intro refines_seq controller_redis.IgHandler_Add_refines [OF c assms(4)]
        controller_redis.IgHandler_Delete_refines [OF c assms(4)])
  from refinesD [OF this assms(3)] entries_add_rem [of "watched route_entries E obj" "members s"]
    assms(5) snippets_not_entries
  show ?thesis by auto
qed

theorem IgHandler_Add_Delete_witness:
  "\<exists>s'. block [IgHandler_Add mem_redis mem_endpoint (IngressObj ig_one),
      IgHandler_Delete mem_redis mem_endpoint (IngressObj ig_one)] mem_empty = Ok s'
    \<and> mem_members s' 1 ''$ns/one/1'' = {''ts.debug()''}
    \<and> mem_members s' 1 ''P+https://s.com/a'' = {}"
proof -
  have f: "v \<notin> mem_members mem_empty 1 k"
    if "(k, v) \<in> set (watched route_entries mem_endpoint (IngressObj ig_one))" for k v
    by simp
  show ?thesis
    using IgHandler_Add_Delete [OF mem.redis_server_axioms, OF mem_open mem_empty_up ex_safe(1) f]
    unfolding watched_def ex_watched option.case ex_rows
    by (auto simp: entries_add_def)
qed

text \<open>
  C12. When no two routes of the old object share a key and no key that only the new object has is
  in use, an update is a deletion of the old object followed by an addition of the new one, without
  the moment in between at which the routes are missing.
\<close>

theorem IgHandler_Update_is_replacement:
  assumes "redis_server R members up" "client_open (RedisClient E)" "up s" "temp_clean 1 (members s)"
    and "as_ingress obj \<noteq> None" "as_ingress newObj \<noteq> None" "ig_safe E obj" "ig_safe E newObj"
    and "range_order ord" "distinct (map fst (watched route_rows E obj))"
    and "\<And>k. k \<in> fst ` set (watched route_rows E newObj) \<Longrightarrow> k \<notin> fst ` set (watched route_rows E obj)
      \<Longrightarrow> members s 1 k = {}"
  shows "\<exists>s' t. IgHandler_Update ord R E obj newObj s = Ok s'
    \<and> block [IgHandler_Delete R E obj, IgHandler_Add R E newObj] s = Ok t
    \<and> members s' = members t"
proof -
  note c = controller_redisI [OF assms(1,2)]
  have "refines up members (block [IgHandler_Delete R E obj, IgHandler_Add R E newObj])
      (\<lambda>D. entries_add (watched snippet_entries E newObj @ watched route_entries E newObj)
         (entries_rem (watched route_entries E obj) D))"
    unfolding block.simps seq_skip
    by (intro refines_seq controller_redis.IgHandler_Add_refines [OF c assms(8)]
        controller_redis.IgHandler_Delete_refines [OF c assms(7)])
  from refinesD [OF this assms(3)] obtain t
    where t: "block [IgHandler_Delete R E obj, IgHandler_Add R E newObj] s = Ok t"
      "members t = entries_add (watched snippet_entries E newObj @ watched route_entries E newObj)
         (entries_rem (watched route_entries E obj) (members s))" by blast
  obtain s' where "IgHandler_Update ord R E obj newObj s = Ok s'"
    "members s' = routes_update (watched route_rows E obj) (watched snippet_entries E newObj)
       (watched route_rows E newObj) (members s)"
    using refinesD [OF controller_redis.IgHandler_Update_refines [OF c assms(5-9)]] assms(3,4) by blast
  moreover have "routes_update (watched route_rows E obj) (watched snippet_entries E newObj)
       (watched route_rows E newObj) (members s) = members t"
    unfolding t(2) by (rule routes_update_replaces) (fact assms(10,11))+
  ultimately show ?thesis using t(1) by auto
qed

theorem IgHandler_Update_is_replacement_witness:
  "\<exists>s' t. IgHandler_Update rev mem_redis mem_endpoint (IngressObj ig_one) (IngressObj ig_one_next) mem_empty = Ok s'
    \<and> block [IgHandler_Delete mem_redis mem_endpoint (IngressObj ig_one),
         IgHandler_Add mem_redis mem_endpoint (IngressObj ig_one_next)] mem_empty = Ok t
    \<and> mem_members s' = mem_members t"
proof -
  have i: "as_ingress (IngressObj ig_one) \<noteq> None" "as_ingress (IngressObj ig_one_next) \<noteq> None"
    by simp_all
  have c: "temp_clean 1 (mem_members mem_empty)" by (simp add: temp_clean_def)
  have o: "range_order (rev :: map_order)" by simp
  have d: "distinct (map fst (watched route_rows mem_endpoint (IngressObj ig_one)))"
    by (simp add: watched_def ex_watched ex_rows)
  have f: "mem_members mem_empty 1 k = {}" for k by simp
  show ?thesis
    using IgHandler_Update_is_replacement [OF mem.redis_server_axioms, OF mem_open mem_empty_up c i
        ex_safe(1,2) o d f] .
qed

section \<open>Where the table goes wrong\<close>

text \<open>
  C30. An update destroys routes of other ingresses: under a routing key that the new object has and
  the old one has not, everything that was there is lost, and only the new object's values remain.
  Adding the same object would have kept the other ingress's services.
\<close>

theorem IgHandler_Update_clobbers:
  assumes "redis_server R members up" "client_open (RedisClient E)" "up s" "temp_clean 1 (members s)"
    and "as_ingress obj \<noteq> None" "as_ingress newObj \<noteq> None" "ig_safe E obj" "ig_safe E newObj"
    and "range_order ord"
    and "k \<in> fst ` set (watched route_rows E newObj)" "k \<notin> fst ` set (watched route_rows E obj)"
  shows "\<exists>t u. IgHandler_Update ord R E obj newObj s = Ok t \<and> IgHandler_Add R E newObj s = Ok u
    \<and> members t 1 k = {v. (k, v) \<in> set (watched route_entries E newObj)}
    \<and> members u 1 k = members s 1 k \<union> members t 1 k"
proof -
  note c = controller_redisI [OF assms(1,2)]
  let ?r = "{v. (k, v) \<in> set (watched route_entries E newObj)}"
  have none: "map_of (rev (watched route_rows E obj)) k = None"
    using assms(11) by (simp add: map_of_eq_None_iff)
  have snip: "(k, v) \<notin> set (watched snippet_entries E newObj)" for v
    using snippet_key_not_route assms(10) by blast
  obtain t where t: "IgHandler_Update ord R E obj newObj s = Ok t"
    "members t = routes_update (watched route_rows E obj) (watched snippet_entries E newObj)
       (watched route_rows E newObj) (members s)"
    using refinesD [OF controller_redis.IgHandler_Update_refines [OF c assms(5-9)]] assms(3,4) by blast
  have tk: "members t 1 k = ?r"
    unfolding t(2) routes_update_def using none snip assms(10) by (simp add: watched_entries_rows)
  obtain u where u: "IgHandler_Add R E newObj s = Ok u" "members u =
      entries_add (watched snippet_entries E newObj @ watched route_entries E newObj) (members s)"
    using refinesD [OF controller_redis.IgHandler_Add_refines [OF c assms(8)] assms(3)] by blast
  have "members u 1 k = members s 1 k \<union> ?r"
    unfolding u(2) entries_add_def using snip by simp
  with t(1) u(1) tk show ?thesis by simp
qed

text \<open>The other ingress's service \<open>ns:svc9:80\<close> is lost when \<open>ig_two\<close> becomes \<open>ig_one_next\<close>.\<close>

theorem IgHandler_Update_clobbers_witness:
  "\<exists>t. IgHandler_Update rev mem_redis mem_endpoint (IngressObj ig_two) (IngressObj ig_one_next)
       (mem_put 1 ''P+https://s.com/a'' [''ns:svc9:80''] mem_empty) = Ok t
    \<and> mem_members t 1 ''P+https://s.com/a'' = {''ns:svc3:80''}"
proof -
  let ?s = "mem_put 1 ''P+https://s.com/a'' [''ns:svc9:80''] mem_empty"
  have p: "mem_up ?s" by (simp add: mem_up_put)
  have c: "temp_clean 1 (mem_members ?s)" by (auto simp: temp_clean_def is_temp_def)
  have i: "as_ingress (IngressObj ig_two) \<noteq> None" "as_ingress (IngressObj ig_one_next) \<noteq> None"
    by simp_all
  have o: "range_order (rev :: map_order)" by simp
  have k: "''P+https://s.com/a'' \<in> fst ` set (watched route_rows mem_endpoint (IngressObj ig_one_next))"
    "''P+https://s.com/a'' \<notin> fst ` set (watched route_rows mem_endpoint (IngressObj ig_two))"
    by (simp_all add: watched_def ex_watched ex_rows)
  have e: "watched route_entries mem_endpoint (IngressObj ig_one_next)
      = [(''P+https://s.com/a'', ''ns:svc3:80'')]" by code_simp
  have "{v. (''P+https://s.com/a'', v) \<in> set (watched route_entries mem_endpoint (IngressObj ig_one_next))}
      = {''ns:svc3:80''}" by (simp add: e)
  with IgHandler_Update_clobbers [OF mem.redis_server_axioms, OF mem_open p c i ex_safe(3,2) o k]
  show ?thesis by metis
qed

text \<open>
  When two routes of the old object share a routing key (two rules for one host and path, or
  the default backend and a rule for every host), an update removes the values of the last one only:
  a service of the earlier route stays in the table even if the new object does not mention it, and
  a deletion of the old object would have removed it.
\<close>

theorem IgHandler_Update_keeps_duplicate:
  assumes "redis_server R members up" "client_open (RedisClient E)" "up s" "temp_clean 1 (members s)"
    and "as_ingress obj \<noteq> None" "as_ingress newObj \<noteq> None" "ig_safe E obj" "ig_safe E newObj"
    and "range_order ord"
    and "watched route_rows E obj = rows @ (k, vs1) # rows' @ [(k, vs2)]" "v \<in> set vs1" "v \<notin> set vs2"
    and "v \<in> members s 1 k"
  shows "\<exists>t u. IgHandler_Update ord R E obj newObj s = Ok t \<and> v \<in> members t 1 k
    \<and> IgHandler_Delete R E obj s = Ok u \<and> v \<notin> members u 1 k"
proof -
  note c = controller_redisI [OF assms(1,2)]
  obtain t where t: "IgHandler_Update ord R E obj newObj s = Ok t"
    "members t = routes_update (watched route_rows E obj) (watched snippet_entries E newObj)
       (watched route_rows E newObj) (members s)"
    using refinesD [OF controller_redis.IgHandler_Update_refines [OF c assms(5-9)]] assms(3,4) by blast
  have "map_of (rev (watched route_rows E obj)) k = Some vs2" unfolding assms(10) by simp
  then have "v \<in> members t 1 k" unfolding t(2) routes_update_def using assms(12,13) by simp
  moreover obtain u where u: "IgHandler_Delete R E obj s = Ok u"
    "members u = entries_rem (watched route_entries E obj) (members s)"
    using refinesD [OF controller_redis.IgHandler_Delete_refines [OF c assms(7)] assms(3)] by blast
  moreover have "(k, v) \<in> set (watched route_entries E obj)"
    unfolding watched_entries_rows assms(10) using assms(11) by auto
  then have "v \<notin> members u 1 k" unfolding u(2) entries_rem_def by simp
  ultimately show ?thesis using t(1) by blast
qed

definition ig_twice :: Ingress where
  "ig_twice = ex_ingress ''twice'' ''1'' []
     [\<lparr>Host = ''t.com'', HTTP = Some [ex_path ''/'' ''svc5'', ex_path ''/'' ''svc6'']\<rparr>]"

theorem IgHandler_Update_keeps_duplicate_witness:
  "\<exists>t. IgHandler_Update rev mem_redis mem_endpoint (IngressObj ig_twice) (IngressObj ig_two)
       (mem_put 1 ''P+http://t.com/'' [''ns:svc5:80'', ''ns:svc6:80''] mem_empty) = Ok t
    \<and> ''ns:svc5:80'' \<in> mem_members t 1 ''P+http://t.com/''"
proof -
  let ?s = "mem_put 1 ''P+http://t.com/'' [''ns:svc5:80'', ''ns:svc6:80''] mem_empty"
  have p: "mem_up ?s" by (simp add: mem_up_put)
  have c: "temp_clean 1 (mem_members ?s)" by (auto simp: temp_clean_def is_temp_def)
  have i: "as_ingress (IngressObj ig_twice) \<noteq> None" "as_ingress (IngressObj ig_two) \<noteq> None"
    by simp_all
  have o: "range_order (rev :: map_order)" by simp
  have safe: "ig_safe mem_endpoint (IngressObj ig_twice)" by code_simp
  have r: "watched route_rows mem_endpoint (IngressObj ig_twice) =
      [] @ (''P+http://t.com/'', [''ns:svc5:80'']) # [] @ [(''P+http://t.com/'', [''ns:svc6:80''])]"
    by code_simp
  have v: "''ns:svc5:80'' \<in> set [''ns:svc5:80'']" "''ns:svc5:80'' \<notin> set [''ns:svc6:80'']"
    "''ns:svc5:80'' \<in> mem_members ?s 1 ''P+http://t.com/''" by simp_all
  show ?thesis
    using IgHandler_Update_keeps_duplicate [OF mem.redis_server_axioms, OF mem_open p c i safe ex_safe(3) o r v]
    by blast
qed

text \<open>
  A deletion that the informer learnt of too late arrives as a tombstone. The handler does not look
  inside it: the routes of the ingress stay.
\<close>

lemma IgHandler_Delete_tombstone:
  assumes "redis_server R members up" "client_open (RedisClient E)" "up s"
  shows "\<exists>s'. IgHandler_Delete R E (DeletedFinalStateUnknown key (IngressObj ig)) s = Ok s'
    \<and> members s' = members s"
proof -
  let ?t = "DeletedFinalStateUnknown key (IngressObj ig)"
  have "ig_safe E ?t" "watched route_entries E ?t = []"
    by (simp_all add: ig_safe_def watched_def watched_ingress_def)
  with refinesD [OF controller_redis.IgHandler_Delete_refines [OF controller_redisI [OF assms(1,2)]] assms(3)]
  show ?thesis by (fastforce simp: entries_rem_def)
qed

end
