(* ===== verification/Ingress_Runs.thy ===== *)
theory Ingress_Runs
  imports Ingress_Properties
begin

text \<open>
  Whole runs of the ingress handler. The abstract state is the set of live ingresses; the events
  the API server delivers move it along the step relation \<open>table_step\<close>. As long as no two live
  ingresses claim the same routing key, database 1 is at every moment the table of the live
  ingresses: a simulation of the set by the sets in Redis.
\<close>

section \<open>The live ingresses and their table\<close>

definition is_route_key :: "string \<Rightarrow> bool" where
  "is_route_key k \<longleftrightarrow> prefix ''P+'' k \<or> prefix ''E+'' k"

definition route_keys :: "Ingress \<Rightarrow> string set" where
  "route_keys ig = fst ` set (ig_routes ig)"

text \<open>No routing key occurs twice, in one ingress or in two.\<close>

definition exclusive :: "Ingress set \<Rightarrow> bool" where
  "exclusive L \<longleftrightarrow> (\<forall>ig \<in> L. distinct (map fst (ig_routes ig))
     \<and> (\<forall>ig' \<in> L. ig \<noteq> ig' \<longrightarrow> route_keys ig \<inter> route_keys ig' = {}))"

definition handled_set :: "Endpoint \<Rightarrow> k8s_obj \<Rightarrow> Ingress set" where
  "handled_set E ob = set_option (watched_ingress E ob)"

inductive table_step :: "Endpoint \<Rightarrow> Ingress set \<Rightarrow> k8s_obj event \<Rightarrow> Ingress set \<Rightarrow> bool" for E where
  added: "\<lbrakk>ig_safe E ob; exclusive (L \<union> handled_set E ob)\<rbrakk>
    \<Longrightarrow> table_step E L (AddEvent ob) (L \<union> handled_set E ob)"
| updated: "\<lbrakk>as_ingress ob \<noteq> None; as_ingress newOb \<noteq> None; ig_safe E ob; ig_safe E newOb;
     handled_set E ob \<subseteq> L; handled_set E newOb \<inter> (L - handled_set E ob) = {};
     exclusive (L - handled_set E ob \<union> handled_set E newOb)\<rbrakk>
    \<Longrightarrow> table_step E L (UpdateEvent ob newOb) (L - handled_set E ob \<union> handled_set E newOb)"
| deleted: "\<lbrakk>as_ingress ob \<noteq> None; ig_safe E ob; handled_set E ob \<subseteq> L\<rbrakk>
    \<Longrightarrow> table_step E L (DeleteEvent ob) (L - handled_set E ob)"

inductive_cases table_step_AddE: "table_step E L (AddEvent ob) L'"
inductive_cases table_step_UpdateE: "table_step E L (UpdateEvent ob newOb) L'"
inductive_cases table_step_DeleteE: "table_step E L (DeleteEvent ob) L'"

inductive table_run :: "Endpoint \<Rightarrow> Ingress set \<Rightarrow> k8s_obj event list \<Rightarrow> Ingress set \<Rightarrow> bool" for E where
  run_Nil: "table_run E L [] L"
| run_Cons: "table_step E L ev L1 \<Longrightarrow> table_run E L1 evs L' \<Longrightarrow> table_run E L (ev # evs) L'"

inductive_simps table_run_simps: "table_run E L [] L'" "table_run E L (ev # evs) L'"

text \<open>What database 1 holds for a set of live ingresses.\<close>

definition table_ok :: "Ingress set \<Rightarrow> dbs \<Rightarrow> bool" where
  "table_ok L D \<longleftrightarrow> temp_clean 1 D
     \<and> (\<forall>k. is_route_key k \<longrightarrow> D 1 k = {v. \<exists>ig \<in> L. (k, v) \<in> set (route_entries ig)})
     \<and> (\<forall>ig \<in> L. \<forall>(k, v) \<in> set (snippet_entries ig). v \<in> D 1 k)"

lemma table_okI:
  assumes "temp_clean 1 D"
    and "\<And>k. is_route_key k \<Longrightarrow> D 1 k = {v. \<exists>ig \<in> L. (k, v) \<in> set (route_entries ig)}"
    and "\<And>ig k v. ig \<in> L \<Longrightarrow> (k, v) \<in> set (snippet_entries ig) \<Longrightarrow> v \<in> D 1 k"
  shows "table_ok L D"
  using assms unfolding table_ok_def by blast

lemma table_okD:
  assumes "table_ok L D"
  shows "temp_clean 1 D"
    and "is_route_key k \<Longrightarrow> D 1 k = {v. \<exists>ig \<in> L. (k, v) \<in> set (route_entries ig)}"
    and "ig \<in> L \<Longrightarrow> (k, v) \<in> set (snippet_entries ig) \<Longrightarrow> v \<in> D 1 k"
  using assms unfolding table_ok_def by blast+

lemma hostpath_route_key: "is_route_key (ConstructHostPathString s h p t)"
  by (simp add: is_route_key_def hostpath_shape)

lemma route_key_plain: "is_route_key k \<Longrightarrow> \<not> is_temp k"
  by (auto simp: is_route_key_def is_temp_def prefix_def)

lemma route_entry_key:
  assumes "(k, v) \<in> set (route_entries ig)"
  shows "is_route_key k" "k \<in> route_keys ig"
proof -
  show "k \<in> route_keys ig"
    unfolding route_keys_def keys_route_entries [symmetric] using assms by (metis fst_conv image_eqI)
  then show "is_route_key k"
    by (auto simp: route_keys_def ig_routes_def default_routes_def path_routes_def rule_routes_def
        path_route_def default_hostPath_def hostpath_route_key split: option.splits)
qed

lemma snippet_entry_key:
  assumes "(k, v) \<in> set (snippet_entries ig)"
  shows "\<not> is_route_key k" "\<not> is_temp k"
  using assms
  by (auto simp: snippet_entries_def ig_nameversion_def ConstructNameVersionString_def
      is_route_key_def is_temp_def split: if_splits)

lemma keys_plain_entries: "keys_plain (snippet_entries ig @ route_entries ig)"
  using snippet_entry_key(2) route_key_plain [OF route_entry_key(1)] by (auto simp: keys_plain_def)

section \<open>Each step of the set is matched by the table\<close>

lemma table_ok_add:
  assumes "table_ok L D"
  shows "table_ok (insert ig L) (entries_add (snippet_entries ig @ route_entries ig) D)"
proof (rule table_okI)
  show "temp_clean 1 (entries_add (snippet_entries ig @ route_entries ig) D)"
    by (rule entries_add_clean [OF table_okD(1) [OF assms] keys_plain_entries])
next
  fix k
  assume k: "is_route_key k"
  then have "(k, v) \<notin> set (snippet_entries ig)" for v using snippet_entry_key(1) by blast
  then show "entries_add (snippet_entries ig @ route_entries ig) D 1 k =
      {v. \<exists>ig \<in> insert ig L. (k, v) \<in> set (route_entries ig)}"
    using table_okD(2) [OF assms k] by (auto simp: entries_add_def)
next
  fix ig' k v
  assume "ig' \<in> insert ig L" "(k, v) \<in> set (snippet_entries ig')"
  then show "v \<in> entries_add (snippet_entries ig @ route_entries ig) D 1 k"
    using table_okD(3) [OF assms] by (auto simp: entries_add_def)
qed

lemma table_ok_rem:
  assumes "table_ok L D" "exclusive L" "ig \<in> L"
  shows "table_ok (L - {ig}) (entries_rem (route_entries ig) D)"
proof (rule table_okI)
  show "temp_clean 1 (entries_rem (route_entries ig) D)"
    by (rule entries_rem_clean [OF table_okD(1) [OF assms(1)]])
next
  fix k
  assume k: "is_route_key k"
  have "(k, v) \<notin> set (route_entries ig)" if "ig' \<in> L - {ig}" "(k, v) \<in> set (route_entries ig')" for ig' v
    using that assms(2,3) route_entry_key(2) unfolding exclusive_def by blast
  then show "entries_rem (route_entries ig) D 1 k =
      {v. \<exists>ig \<in> L - {ig}. (k, v) \<in> set (route_entries ig)}"
    using table_okD(2) [OF assms(1) k] assms(3) by (auto simp: entries_rem_def)
next
  fix ig' k v
  assume ig': "ig' \<in> L - {ig}" "(k, v) \<in> set (snippet_entries ig')"
  then have "(k, w) \<notin> set (route_entries ig)" for w
    using route_entry_key(1) snippet_entry_key(1) by blast
  with ig' table_okD(3) [OF assms(1)] show "v \<in> entries_rem (route_entries ig) D 1 k"
    by (auto simp: entries_rem_def)
qed

lemma entries_Nil [simp]: "entries_add [] D = D" "entries_rem [] D = D"
  by (simp_all add: entries_add_def entries_rem_def)

lemma exclusive_mono: "exclusive L \<Longrightarrow> L' \<subseteq> L \<Longrightarrow> exclusive L'"
  unfolding exclusive_def by blast

lemma table_ok_added:
  assumes "table_ok L D"
  shows "table_ok (L \<union> handled_set E ob)
    (entries_add (watched snippet_entries E ob @ watched route_entries E ob) D)"
  using assms table_ok_add [OF assms]
  by (cases "watched_ingress E ob") (simp_all add: handled_set_def watched_def)

lemma table_ok_removed:
  assumes "table_ok L D" "exclusive L" "handled_set E ob \<subseteq> L"
  shows "table_ok (L - handled_set E ob) (entries_rem (watched route_entries E ob) D)"
  using assms table_ok_rem [OF assms(1,2)]
  by (cases "watched_ingress E ob") (simp_all add: handled_set_def watched_def)

lemma handled_rows_distinct:
  assumes "exclusive L" "handled_set E ob \<subseteq> L"
  shows "distinct (map fst (watched route_rows E ob))"
  using assms
  by (cases "watched_ingress E ob")
    (simp_all add: handled_set_def watched_def exclusive_def route_rows_def case_prod_beta comp_def)

text \<open>A key only the new object has is not in the table when the object arrives.\<close>

lemma new_key_unused:
  assumes "table_ok L D" "handled_set E ob \<subseteq> L"
    and "exclusive (L - handled_set E ob \<union> handled_set E newOb)"
    and "k \<in> fst ` set (watched route_rows E newOb)" "k \<notin> fst ` set (watched route_rows E ob)"
    and "handled_set E newOb \<inter> (L - handled_set E ob) = {}"
  shows "D 1 k = {}"
proof -
  obtain new where new: "watched_ingress E newOb = Some new" "k \<in> route_keys new"
    using assms(4) by (cases "watched_ingress E newOb") (auto simp: watched_def keys_route_rows route_keys_def)
  then have "is_route_key k"
    by (auto simp: route_keys_def keys_route_entries [symmetric] dest: route_entry_key(1))
  moreover have "(k, v) \<notin> set (route_entries ig)" if "ig \<in> L" for ig v
  proof
    assume e: "(k, v) \<in> set (route_entries ig)"
    show False
    proof (cases "ig \<in> handled_set E ob")
      case True
      then have "watched route_rows E ob = route_rows ig"
        by (auto simp: handled_set_def watched_def)
      with assms(5) route_entry_key(2) [OF e] show False by (simp add: keys_route_rows route_keys_def)
    next
      case False
      with \<open>ig \<in> L\<close> assms(6) new(1) have "ig \<noteq> new" by (auto simp: handled_set_def)
      with False \<open>ig \<in> L\<close> assms(3) new route_entry_key(2) [OF e] show False
        unfolding exclusive_def handled_set_def by fastforce
    qed
  qed
  ultimately show ?thesis using table_okD(2) [OF assms(1)] by simp
qed

lemma table_ok_updated:
  assumes "table_ok L D" "exclusive L" "handled_set E ob \<subseteq> L"
    and "handled_set E newOb \<inter> (L - handled_set E ob) = {}"
    and "exclusive (L - handled_set E ob \<union> handled_set E newOb)"
  shows "table_ok (L - handled_set E ob \<union> handled_set E newOb)
    (routes_update (watched route_rows E ob) (watched snippet_entries E newOb) (watched route_rows E newOb) D)"
proof -
  have "routes_update (watched route_rows E ob) (watched snippet_entries E newOb) (watched route_rows E newOb) D
    = entries_add (watched snippet_entries E newOb @ watched route_entries E newOb)
        (entries_rem (watched route_entries E ob) D)"
    by (rule routes_update_replaces)
      (use handled_rows_distinct [OF assms(2,3)] new_key_unused [OF assms(1,3,5) _ _ assms(4)] in auto)
  with table_ok_added [OF table_ok_removed [OF assms(1-3)]] show ?thesis by simp
qed

lemma deliver_table:
  assumes c: "controller_redis R members up E" and ord: "range_order ord"
    and "table_step E L ev L'" "exclusive L" "up s" "table_ok L (members s)"
  shows "\<exists>s'. deliver (IgHandler ord R E) ev s = Ok s' \<and> up s' \<and> table_ok L' (members s') \<and> exclusive L'"
  using assms(3)
proof (cases rule: table_step.cases)
  case (added ob)
  from refinesD [OF controller_redis.IgHandler_Add_refines [OF c added(3)] assms(5)]
    table_ok_added [OF assms(6), of E ob] added
  show ?thesis by (auto simp: IgHandler_def)
next
  case (updated ob newOb)
  obtain s' where "IgHandler_Update ord R E ob newOb s = Ok s'" "up s'"
    "members s' = routes_update (watched route_rows E ob) (watched snippet_entries E newOb)
      (watched route_rows E newOb) (members s)"
    using refinesD [OF controller_redis.IgHandler_Update_refines [OF c updated(3-6) ord], of s]
      assms(5) table_okD(1) [OF assms(6)] by blast
  with table_ok_updated [OF assms(6,4) updated(7-9)] updated(1,2,9) show ?thesis
    by (simp add: IgHandler_def)
next
  case (deleted ob)
  from refinesD [OF controller_redis.IgHandler_Delete_refines [OF c deleted(4)] assms(5)]
    table_ok_removed [OF assms(6,4) deleted(5)] exclusive_mono [OF assms(4)] deleted
  show ?thesis by (auto simp: IgHandler_def)
qed

section \<open>Properties\<close>

lemma deliver_all_table:
  assumes "redis_server R members up" "client_open (RedisClient E)" "up s" "range_order ord"
    and "table_run E L evs L'" "exclusive L" "table_ok L (members s)"
  shows "\<exists>s'. deliver_all (IgHandler ord R E) evs s = Ok s' \<and> up s' \<and> table_ok L' (members s')"
  using assms(5-7,3)
proof (induction arbitrary: s rule: table_run.induct)
  case (run_Nil L)
  then show ?case by (simp add: deliver_all_def skip_def)
next
  case (run_Cons L ev L1 evs L')
  obtain s1 where 1: "deliver (IgHandler ord R E) ev s = Ok s1" "up s1" "table_ok L1 (members s1)"
    "exclusive L1"
    using deliver_table [OF controller_redisI [OF assms(1,2)] assms(4) run_Cons.hyps(1)
        run_Cons.prems(1,3,2)] by blast
  with run_Cons.IH [OF 1(4,3,2)] show ?case by (simp add: deliver_all_def seq_def)
qed

text \<open>
  C3. Whatever the API server does to the ingresses, as long as no two of them claim the same
  routing key: after any sequence of events the handler has not panicked and database 1 holds, under
  every routing key, exactly the services and snippet keys of the live ingresses the controller
  handles, and the snippet of each of them; no temporary key is in use. This holds for every order
  in which Go ranges over maps, and for the updates of a resync that repeat an unchanged object.
\<close>

theorem IgHandler_run_table:
  assumes "redis_server R members up" "client_open (RedisClient E)" "up s" "range_order ord"
    and "table_run E L evs L'" "exclusive L" "table_ok L (members s)"
  shows "\<exists>s'. deliver_all (IgHandler ord R E) evs s = Ok s' \<and> up s' \<and> table_ok L' (members s')"
  by (rule deliver_all_table [OF assms])

lemma ex_handled:
  "handled_set mem_endpoint (IngressObj ig_one) = {ig_one}"
  "handled_set mem_endpoint (IngressObj ig_one_next) = {ig_one_next}"
  "handled_set mem_endpoint (IngressObj ig_two) = {ig_two}"
  by (simp_all add: handled_set_def ex_watched)

lemma ex_routes:
  "map fst (ig_routes ig_one) = [''P+https://s.com/a'', ''P+https://s.com/b'']"
  "map fst (ig_routes ig_one_next) = [''P+https://s.com/a'']"
  "map fst (ig_routes ig_two) = [''P+http://t.com/'']"
  by code_simp+

lemma ex_keys:
  "route_keys ig_one = {''P+https://s.com/a'', ''P+https://s.com/b''}"
  "route_keys ig_one_next = {''P+https://s.com/a''}" "route_keys ig_two = {''P+http://t.com/''}"
  by (simp_all add: route_keys_def set_map [symmetric] ex_routes del: set_map)

lemma ex_neq: "ig_one \<noteq> ig_one_next" "ig_one \<noteq> ig_two" "ig_one_next \<noteq> ig_two"
  by (simp_all add: ig_one_def ig_one_next_def ig_two_def ex_ingress_def)

lemma ex_run:
  "table_run mem_endpoint {} [AddEvent (IngressObj ig_one), AddEvent (IngressObj ig_two),
     UpdateEvent (IngressObj ig_one) (IngressObj ig_one_next), DeleteEvent (IngressObj ig_two)]
     {ig_one_next}"
proof -
  have "table_step mem_endpoint {} (AddEvent (IngressObj ig_one)) {ig_one}"
    using table_step.added [of mem_endpoint "IngressObj ig_one" "{}"] ex_safe
    by (simp add: ex_handled exclusive_def ex_routes)
  moreover have "table_step mem_endpoint {ig_one} (AddEvent (IngressObj ig_two)) {ig_one, ig_two}"
    using table_step.added [of mem_endpoint "IngressObj ig_two" "{ig_one}"] ex_safe
    by (simp add: ex_handled exclusive_def ex_routes ex_keys insert_commute)
  moreover have "table_step mem_endpoint {ig_one, ig_two}
      (UpdateEvent (IngressObj ig_one) (IngressObj ig_one_next)) {ig_one_next, ig_two}"
    using table_step.updated [of "IngressObj ig_one" "IngressObj ig_one_next" mem_endpoint "{ig_one, ig_two}"]
      ex_safe ex_neq
    by (simp add: ex_handled exclusive_def ex_routes ex_keys insert_Diff_if)
  moreover have "table_step mem_endpoint {ig_one_next, ig_two} (DeleteEvent (IngressObj ig_two)) {ig_one_next}"
    using table_step.deleted [of "IngressObj ig_two" mem_endpoint "{ig_one_next, ig_two}"] ex_safe ex_neq
    by (simp add: ex_handled insert_Diff_if)
  ultimately show ?thesis by (meson table_run.intros)
qed

theorem IgHandler_run_table_witness:
  "\<exists>s'. deliver_all (IgHandler rev mem_redis mem_endpoint)
      [AddEvent (IngressObj ig_one), AddEvent (IngressObj ig_two),
       UpdateEvent (IngressObj ig_one) (IngressObj ig_one_next), DeleteEvent (IngressObj ig_two)]
      mem_empty = Ok s' \<and> mem_members s' 1 ''P+https://s.com/a'' = {''ns:svc3:80''}
    \<and> mem_members s' 1 ''P+http://t.com/'' = {}"
proof -
  have o: "range_order (rev :: map_order)" by simp
  have e: "exclusive {}" by (simp add: exclusive_def)
  have t: "table_ok {} (mem_members mem_empty)" by (simp add: table_ok_def temp_clean_def)
  have entries: "route_entries ig_one_next = [(''P+https://s.com/a'', ''ns:svc3:80'')]" by code_simp
  obtain s' where s': "deliver_all (IgHandler rev mem_redis mem_endpoint)
      [AddEvent (IngressObj ig_one), AddEvent (IngressObj ig_two),
       UpdateEvent (IngressObj ig_one) (IngressObj ig_one_next), DeleteEvent (IngressObj ig_two)]
      mem_empty = Ok s'" "table_ok {ig_one_next} (mem_members s')"
    using IgHandler_run_table [OF mem.redis_server_axioms, OF mem_open mem_empty_up o ex_run e t] by blast
  then show ?thesis
    using table_okD(2) [OF s'(2)] by (simp add: is_route_key_def entries)
qed

text \<open>
  Whatever sequence of events on safe objects is delivered, also one that breaks the assumption
  on routing keys, the handler never panics and leaves no temporary key in use.
\<close>

theorem IgHandler_run_clean:
  assumes "redis_server R members up" "client_open (RedisClient E)" "up s" "temp_clean 1 (members s)"
    and "range_order ord" "list_all (\<lambda>ev. list_all (ig_safe E) (event_objects ev)) evs"
  shows "\<exists>s'. deliver_all (IgHandler ord R E) evs s = Ok s' \<and> up s' \<and> temp_clean 1 (members s')"
  using event_handler.deliver_all_inv [OF controller_redis.IgHandler_contract
      [OF controller_redisI [OF assms(1,2)] assms(5)] assms(6)] assms(3,4) by blast

theorem IgHandler_run_clean_witness:
  "\<exists>s'. deliver_all (IgHandler rev mem_redis mem_endpoint)
      [UpdateEvent (IngressObj ig_two) (IngressObj ig_one), DeleteEvent OtherObj] mem_empty = Ok s'
    \<and> temp_clean 1 (mem_members s')"
proof -
  have o: "range_order (rev :: map_order)" by simp
  have c: "temp_clean 1 (mem_members mem_empty)" by (simp add: temp_clean_def)
  have v: "list_all (\<lambda>ev. list_all (ig_safe mem_endpoint) (event_objects ev))
      [UpdateEvent (IngressObj ig_two) (IngressObj ig_one), DeleteEvent OtherObj]"
    using ex_safe by (simp add: ig_safe_def)
  show ?thesis
    using IgHandler_run_clean [OF mem.redis_server_axioms, OF mem_open mem_empty_up c o v] by blast
qed

end
