(* ===== verification/Redis_Calls.thy ===== *)
theory Redis_Calls
  imports Endpoint_Handler Ingress_Runs
begin

text \<open>
  The handlers of ingresses and of endpoints as lists of calls of the Redis client. What a handler
  sends depends only on the objects of the event, never on an answer of the server, so an event is
  a fixed list of calls. The informers run their handlers in threads of their own: the calls of an
  ingress event and of an endpoints event may be interleaved in any way.
\<close>

section \<open>Calls and their effect\<close>

datatype redis_call =
    Default_SAdd string string
  | Default_Del string
  | Default_SUnionStore string string
  | One_SAdd string string
  | One_SRem string string
  | One_Del string
  | One_SUnionStore string string
  | Print_Keys

fun exec_call :: "'s redis_api \<Rightarrow> Client \<Rightarrow> redis_call \<Rightarrow> 's prog" where
  "exec_call R c (Default_SAdd k v) = DefaultDBSAdd R c k v"
| "exec_call R c (Default_Del k) = DefaultDBDel R c k"
| "exec_call R c (Default_SUnionStore dest src) = DefaultDBSUnionStore R c dest src"
| "exec_call R c (One_SAdd k v) = DBOneSAdd R c k v"
| "exec_call R c (One_SRem k v) = DBOneSRem R c k v"
| "exec_call R c (One_Del k) = DBOneDel R c k"
| "exec_call R c (One_SUnionStore dest src) = DBOneSUnionStore R c dest src"
| "exec_call R c Print_Keys = PrintAllKeys R c"

fun call_effect :: "redis_call \<Rightarrow> dbs \<Rightarrow> dbs" where
  "call_effect (Default_SAdd k v) = db_add 0 k v"
| "call_effect (Default_Del k) = db_del 0 k"
| "call_effect (Default_SUnionStore dest src) = db_union 0 dest src"
| "call_effect (One_SAdd k v) = db_add 1 k v"
| "call_effect (One_SRem k v) = db_rem 1 k v"
| "call_effect (One_Del k) = db_del 1 k"
| "call_effect (One_SUnionStore dest src) = db_union 1 dest src"
| "call_effect Print_Keys = (\<lambda>D. D)"

text \<open>Whether a call works on a database; printing the keys changes none.\<close>

fun on_db :: "nat \<Rightarrow> redis_call \<Rightarrow> bool" where
  "on_db d (Default_SAdd k v) = (d = 0)"
| "on_db d (Default_Del k) = (d = 0)"
| "on_db d (Default_SUnionStore dest src) = (d = 0)"
| "on_db d (One_SAdd k v) = (d = 1)"
| "on_db d (One_SRem k v) = (d = 1)"
| "on_db d (One_Del k) = (d = 1)"
| "on_db d (One_SUnionStore dest src) = (d = 1)"
| "on_db d Print_Keys = False"

definition run_calls :: "'s redis_api \<Rightarrow> Client \<Rightarrow> redis_call list \<Rightarrow> 's prog" where
  "run_calls R c calls = for_each (exec_call R c) calls"

lemma run_calls_simps [simp]:
  "run_calls R c [] = skip"
  "run_calls R c (call # calls) = seq (exec_call R c call) (run_calls R c calls)"
  "run_calls R c (calls @ calls') = seq (run_calls R c calls) (run_calls R c calls')"
  by (simp_all add: run_calls_def for_each_append)

lemma run_calls_concat: "run_calls R c (concat (map f xs)) = for_each (\<lambda>x. run_calls R c (f x)) xs"
  by (induction xs) simp_all

lemma run_calls_map: "run_calls R c (map f xs) = for_each (\<lambda>x. exec_call R c (f x)) xs"
  by (simp add: run_calls_def for_each_map)

lemma call_effect_other: "\<not> on_db d call \<Longrightarrow> call_effect call D d = D d"
  by (cases call) (simp_all add: db_defs)

lemma db_local:
  assumes "D d = D' d"
  shows "db_add e k v D d = db_add e k v D' d" "db_rem e k v D d = db_rem e k v D' d"
    "db_del e k D d = db_del e k D' d" "db_union e dest src D d = db_union e dest src D' d"
  using assms by (auto simp: db_defs)

lemma call_effect_local: "D d = D' d \<Longrightarrow> call_effect call D d = call_effect call D' d"
  by (cases call) (auto intro: db_local)

lemma calls_effect_local: "D d = D' d \<Longrightarrow> fold call_effect calls D d = fold call_effect calls D' d"
proof (induction calls arbitrary: D D')
  case (Cons call calls)
  then have "call_effect call D d = call_effect call D' d" by (intro call_effect_local)
  then have "fold call_effect calls (call_effect call D) d = fold call_effect calls (call_effect call D') d"
    by (rule Cons.IH)
  then show ?case by simp
qed simp

lemma calls_effect_filter:
  "fold call_effect calls D d = fold call_effect (filter (on_db d) calls) D d"
proof (induction calls arbitrary: D)
  case (Cons call calls)
  show ?case
  proof (cases "on_db d call")
    case False
    then have "fold call_effect calls (call_effect call D) d = fold call_effect calls D d"
      by (intro calls_effect_local call_effect_other)
    with False Cons show ?thesis by simp
  qed (simp add: Cons)
qed simp

text \<open>
  Calls on one database do not see calls that are not on it, however the two lists are interleaved.
\<close>

lemma calls_effect_interleaved:
  assumes "zs \<in> shuffles xs ys" "list_all (\<lambda>call. \<not> on_db d call) ys"
  shows "fold call_effect zs D d = fold call_effect xs D d"
proof -
  have "filter (on_db d) zs \<in> shuffles (filter (on_db d) xs) (filter (on_db d) ys)"
    using assms(1) by (metis filter_shuffles imageI)
  moreover have "filter (on_db d) ys = []" using assms(2) by (simp add: filter_empty_conv list_all_iff)
  ultimately show ?thesis using calls_effect_filter [of zs D d] calls_effect_filter [of xs D d] by simp
qed

context controller_redis
begin

lemma run_calls_refines: "refines up members (run_calls R (RedisClient E) calls) (\<lambda>D. fold call_effect calls D)"
  unfolding run_calls_def
proof (rule refines_for_each)
  show "refines up members (exec_call R (RedisClient E) call) (call_effect call)" for call
    by (cases call) (auto intro: redis_refines PrintAllKeys_refines client)
qed

end

section \<open>The calls of an endpoints event\<close>

fun ep_calls :: "Endpoint \<Rightarrow> k8s_obj event \<Rightarrow> redis_call list" where
  "ep_calls E (AddEvent ob) =
     concat (map (\<lambda>(k, vs). map (Default_SAdd k) vs) (watched_rows E ob)) @ [Print_Keys]"
| "ep_calls E (UpdateEvent ob newOb) =
     concat (map (\<lambda>(k, vs). map (Default_SAdd (temp_key k)) vs
       @ [Default_SUnionStore k (temp_key k), Default_Del (temp_key k)]) (watched_rows E newOb)) @ [Print_Keys]"
| "ep_calls E (DeleteEvent ob) = map (\<lambda>(k, vs). Default_Del k) (watched_rows E ob) @ [Print_Keys]"

lemma EpHandler_calls:
  "deliver (EpHandler R E) ev = run_calls R (RedisClient E) (ep_calls E ev)"
  by (cases ev) (simp_all add: EpHandler_def EpHandler_Add_def EpHandler_Update_def EpHandler_Delete_def
      EpHandler_add_rows EpHandler_update_rows EpHandler_delete_rows run_calls_concat run_calls_map
      split_def seq_assoc)

lemma ep_calls_db: "list_all (\<lambda>call. \<not> on_db 1 call) (ep_calls E ev)"
  by (cases ev) (auto simp: list_all_iff)

section \<open>The calls of an ingress event\<close>

text \<open>
  The statements of an update thread the local map through; as the map does not influence what is
  sent to Redis, an update is a list of calls too. \<open>tracks p q g\<close>: the program \<open>p\<close> on states
  with the map does to the server what \<open>q\<close> does and to the map what \<open>g\<close> does.
\<close>

definition tracks :: "'s update_state prog \<Rightarrow> 's prog \<Rightarrow> ((string, string) gomap \<Rightarrow> (string, string) gomap) \<Rightarrow> bool" where
  "tracks p q g \<longleftrightarrow> (\<forall>s m. case q s of Ok s' \<Rightarrow> p (s, m) = Ok (s', g m)
     | Panic s' \<Rightarrow> \<exists>m'. p (s, m) = Panic (s', m'))"

lemma tracks_skip: "tracks skip skip (\<lambda>m. m)"
  by (simp add: tracks_def skip_def)

lemma tracks_on_redis: "tracks (on_redis p) p (\<lambda>m. m)"
  by (auto simp: tracks_def on_redis_def split: res.split)

lemma tracks_set_m: "tracks (set_m k v) skip (gm_set k v)"
  by (simp add: tracks_def set_m_def skip_def)

lemma tracksD:
  assumes "tracks p q g"
  shows "q s = Ok s' \<Longrightarrow> p (s, m) = Ok (s', g m)"
    and "q s = Panic s' \<Longrightarrow> \<exists>m'. p (s, m) = Panic (s', m')"
  using assms [unfolded tracks_def, THEN spec, of s, THEN spec, of m] by simp_all

lemma tracksI:
  assumes "\<And>s m s'. q s = Ok s' \<Longrightarrow> p (s, m) = Ok (s', g m)"
    and "\<And>s m s'. q s = Panic s' \<Longrightarrow> \<exists>m'. p (s, m) = Panic (s', m')"
  shows "tracks p q g"
  unfolding tracks_def using assms by (simp split: res.split)

lemma tracks_seq:
  assumes "tracks p q f" "tracks p' q' g"
  shows "tracks (seq p p') (seq q q') (\<lambda>m. g (f m))"
proof (rule tracksI)
  fix s m s'
  assume "seq q q' s = Ok s'"
  then obtain s1 where "q s = Ok s1" "q' s1 = Ok s'" by (auto simp: seq_def split: res.splits)
  with tracksD(1) [OF assms(1)] tracksD(1) [OF assms(2)]
  show "seq p p' (s, m) = Ok (s', g (f m))" by (simp add: seq_def)
next
  fix s m s'
  assume "seq q q' s = Panic s'"
  then consider "q s = Panic s'" | s1 where "q s = Ok s1" "q' s1 = Panic s'"
    by (auto simp: seq_def split: res.splits)
  then show "\<exists>m'. seq p p' (s, m) = Panic (s', m')"
  proof cases
    case 1
    from tracksD(2) [OF assms(1) 1] obtain m' where "p (s, m) = Panic (s', m')" by blast
    then show ?thesis by (simp add: seq_def)
  next
    case (2 s1)
    from tracksD(2) [OF assms(2) 2(2)] tracksD(1) [OF assms(1) 2(1)] show ?thesis
      by (simp add: seq_def)
  qed
qed

lemma tracks_for_each:
  assumes "\<And>x. x \<in> set xs \<Longrightarrow> tracks (f x) (g x) (h x)"
  shows "tracks (for_each f xs) (for_each g xs) (\<lambda>m. fold h xs m)"
  using assms
proof (induction xs)
  case Nil
  then show ?case by (simp add: tracks_skip)
next
  case (Cons x xs)
  have "tracks (f x) (g x) (h x)" "tracks (for_each f xs) (for_each g xs) (\<lambda>m. fold h xs m)"
    using Cons by auto
  from tracks_seq [OF this] show ?case by simp
qed

definition old_calls :: "string \<times> string list \<Rightarrow> redis_call list" where
  "old_calls = (\<lambda>(hp, vals). One_SUnionStore (temp_key hp) hp # map (One_SRem (temp_key hp)) vals)"

definition new_calls :: "string \<times> string list \<Rightarrow> redis_call list" where
  "new_calls = (\<lambda>(hp, vals). map (One_SAdd (temp_key hp)) vals)"

definition update_map :: "Endpoint \<Rightarrow> k8s_obj \<Rightarrow> k8s_obj \<Rightarrow> (string, string) gomap" where
  "update_map E ob newOb =
     fold note_row (watched route_rows E newOb) (fold note_row (watched route_rows E ob) [])"

fun ig_calls :: "map_order \<Rightarrow> Endpoint \<Rightarrow> k8s_obj event \<Rightarrow> redis_call list" where
  "ig_calls ord E (AddEvent ob) =
     map (\<lambda>(k, v). One_SAdd k v) (watched snippet_entries E ob @ watched route_entries E ob) @ [Print_Keys]"
| "ig_calls ord E (UpdateEvent ob newOb) =
     (if as_ingress ob = None \<or> as_ingress newOb = None then [Print_Keys]
      else concat (map old_calls (watched route_rows E ob))
        @ map (\<lambda>(k, v). One_SAdd k v) (watched snippet_entries E newOb)
        @ concat (map new_calls (watched route_rows E newOb))
        @ concat (map (\<lambda>(key, value). [One_SUnionStore value key, One_Del key]) (ord (update_map E ob newOb)))
        @ [Print_Keys])"
| "ig_calls ord E (DeleteEvent ob) =
     map (\<lambda>(k, v). One_SRem k v) (watched route_entries E ob) @ [Print_Keys]"

lemma ig_calls_db: "list_all (\<lambda>call. \<not> on_db 0 call) (ig_calls ord E ev)"
  by (cases ev) (auto simp: list_all_iff old_calls_def new_calls_def)

lemma old_route_tracks:
  "tracks (old_route R c vals hp) (run_calls R c (old_calls (hp, vals))) (note_row (hp, vals))"
proof -
  have "tracks (old_route R c vals hp)
      (seq (DBOneSUnionStore R c (temp_key hp) hp) (seq skip (for_each (DBOneSRem R c (temp_key hp)) vals)))
      (\<lambda>m. fold (\<lambda>v m. m) vals (gm_set (temp_key hp) hp m))"
    unfolding old_route_def block.simps seq_skip(2)
    by (intro tracks_seq tracks_on_redis tracks_set_m tracks_for_each)
  moreover have "fold (\<lambda>v m. m) vals m = m" for vals :: "string list" and m :: "(string, string) gomap"
    by (induction vals) simp_all
  ultimately show ?thesis by (simp add: old_calls_def note_row_def run_calls_map)
qed

lemma new_route_tracks:
  assumes "vals \<noteq> []"
  shows "tracks (new_route R c vals hp) (run_calls R c (new_calls (hp, vals))) (note_row (hp, vals))"
proof -
  have "tracks (new_route R c vals hp)
      (seq (DBOneSAdd R c (temp_key hp) (hd vals)) (seq skip (for_each (DBOneSAdd R c (temp_key hp)) (tl vals))))
      (\<lambda>m. fold (\<lambda>v m. m) (tl vals) (gm_set (temp_key hp) hp m))"
    unfolding new_route_def block.simps seq_skip(2)
    by (intro tracks_seq tracks_on_redis tracks_set_m tracks_for_each)
  moreover have "fold (\<lambda>v m. m) vals m = m" for vals :: "string list" and m :: "(string, string) gomap"
    by (induction vals) simp_all
  moreover have "seq (DBOneSAdd R c (temp_key hp) (hd vals)) (for_each (DBOneSAdd R c (temp_key hp)) (tl vals))
      = for_each (DBOneSAdd R c (temp_key hp)) vals"
    using assms by (cases vals) simp_all
  ultimately show ?thesis by (simp add: new_calls_def note_row_def run_calls_map)
qed


lemma rows_track:
  assumes "\<And>hp vals. (hp, vals) \<in> set rows \<Longrightarrow>
    tracks (p hp vals) (run_calls R c (f (hp, vals))) (note_row (hp, vals))"
  shows "tracks (for_each (\<lambda>(hp, vals). p hp vals) rows) (run_calls R c (concat (map f rows))) (fold note_row rows)"
  unfolding run_calls_concat
  by (rule tracks_for_each) (use assms in \<open>auto split: prod.split\<close>)

lemma snippets_track:
  "tracks (for_each (\<lambda>(k, v). on_redis (DBOneSAdd R c k v)) es)
     (run_calls R c (map (\<lambda>(k, v). One_SAdd k v) es)) (\<lambda>m. m)"
proof -
  have "tracks (for_each (\<lambda>(k, v). on_redis (DBOneSAdd R c k v)) es)
      (run_calls R c (map (\<lambda>(k, v). One_SAdd k v) es)) (\<lambda>m. fold (\<lambda>e m. m) es m)"
    unfolding run_calls_map by (rule tracks_for_each) (auto intro: tracks_on_redis split: prod.split)
  moreover have "fold (\<lambda>e m. m) es m = m" for m :: "(string, string) gomap"
    by (induction es) simp_all
  ultimately show ?thesis by simp
qed

definition update_calls :: "Endpoint \<Rightarrow> k8s_obj \<Rightarrow> k8s_obj \<Rightarrow> redis_call list" where
  "update_calls E ob newOb = concat (map old_calls (watched route_rows E ob))
     @ map (\<lambda>(k, v). One_SAdd k v) (watched snippet_entries E newOb)
     @ concat (map new_calls (watched route_rows E newOb))"

lemma update_tracks:
  assumes "as_ingress ob = Some ig" "as_ingress newOb = Some newIg" "ig_safe E ob" "ig_safe E newOb"
  shows "tracks (block [IgHandler_update_old R E ob ig, IgHandler_update_new R E newOb newIg])
    (run_calls R (RedisClient E) (update_calls E ob newOb))
    (\<lambda>m. fold note_row (watched route_rows E newOb) (fold note_row (watched route_rows E ob) m))"
  unfolding IgHandler_update_old_handled [OF assms(1,3)] IgHandler_update_new_handled [OF assms(2,4)]
    update_calls_def run_calls_simps(3) block.simps seq_skip
  by (intro tracks_seq snippets_track rows_track old_route_tracks new_route_tracks route_vals_nonempty)

lemma swap_keys_calls:
  "swap_keys R c kvs = run_calls R c (concat (map (\<lambda>(key, value). [One_SUnionStore value key, One_Del key]) kvs))"
  by (simp add: swap_keys_def run_calls_concat split_def)

lemma IgHandler_update_calls:
  assumes "as_ingress ob = Some ig" "as_ingress newOb = Some newIg" "ig_safe E ob" "ig_safe E newOb"
  shows "IgHandler_update ord R E ob newOb = run_calls R (RedisClient E) (update_calls E ob newOb
    @ concat (map (\<lambda>(key, value). [One_SUnionStore value key, One_Del key]) (ord (update_map E ob newOb))))"
proof
  fix s
  note up = tracksD [OF update_tracks [OF assms], where m = "[]"]
  show "IgHandler_update ord R E ob newOb s = run_calls R (RedisClient E) (update_calls E ob newOb
    @ concat (map (\<lambda>(key, value). [One_SUnionStore value key, One_Del key]) (ord (update_map E ob newOb)))) s"
  proof (cases "run_calls R (RedisClient E) (update_calls E ob newOb) s")
    case (Ok s')
    from up(1) [OF Ok] Ok show ?thesis
      by (simp add: IgHandler_update_def assms seq_def swap_keys_calls update_map_def del: block.simps)
  next
    case (Panic s')
    from up(2) [OF Panic] obtain m' where
      "block [IgHandler_update_old R E ob ig, IgHandler_update_new R E newOb newIg] (s, []) = Panic (s', m')"
      by blast
    with Panic show ?thesis by (simp add: IgHandler_update_def assms seq_def del: block.simps)
  qed
qed

lemma entries_calls:
  "for_each (\<lambda>(k, v). DBOneSAdd R c k v) es = run_calls R c (map (\<lambda>(k, v). One_SAdd k v) es)"
  "for_each (\<lambda>(k, v). DBOneSRem R c k v) es = run_calls R c (map (\<lambda>(k, v). One_SRem k v) es)"
  by (simp_all add: run_calls_map split_def)

lemma IgHandler_calls:
  assumes "list_all (ig_safe E) (event_objects ev)"
  shows "deliver (IgHandler ord R E) ev = run_calls R (RedisClient E) (ig_calls ord E ev)"
proof (cases ev)
  case (AddEvent ob)
  with assms show ?thesis
    by (simp add: IgHandler_def IgHandler_Add_def IgHandler_add_safe entries_calls seq_assoc)
next
  case (DeleteEvent ob)
  with assms show ?thesis
    by (simp add: IgHandler_def IgHandler_Delete_def IgHandler_delete_safe entries_calls seq_assoc)
next
  case (UpdateEvent ob newOb)
  show ?thesis
  proof (cases "as_ingress ob = None \<or> as_ingress newOb = None")
    case True
    then have "IgHandler_update ord R E ob newOb = skip"
      by (auto simp: IgHandler_update_def skip_def fun_eq_iff split: option.split)
    with True UpdateEvent show ?thesis by (simp add: IgHandler_def IgHandler_Update_def)
  next
    case False
    then obtain ig newIg where ig: "as_ingress ob = Some ig" "as_ingress newOb = Some newIg" by auto
    with assms UpdateEvent show ?thesis
      by (simp add: IgHandler_def IgHandler_Update_def IgHandler_update_calls update_calls_def seq_assoc)
  qed
qed

section \<open>Properties\<close>

lemma deliver_all_calls:
  assumes "\<And>ev. ev \<in> set evs \<Longrightarrow> deliver h ev = run_calls R c (f ev)"
  shows "deliver_all h evs = run_calls R c (concat (map f evs))"
  unfolding deliver_all_def run_calls_concat using assms by (rule for_each_cong [OF refl])

lemma calls_off_db:
  assumes "\<And>ev. list_all (\<lambda>call. \<not> on_db d call) (f ev)"
  shows "list_all (\<lambda>call. \<not> on_db d call) (concat (map f evs))"
  using assms by (auto simp: list_all_iff)

lemma run_calls_result:
  fixes E :: Endpoint
  assumes "redis_server R members up" "client_open (RedisClient E)" "up s"
  shows "\<exists>s'. run_calls R (RedisClient E) calls s = Ok s' \<and> up s'
    \<and> members s' = fold call_effect calls (members s)"
  by (rule refinesD [OF controller_redis.run_calls_refines [OF controller_redisI [OF assms(1,2)]] assms(3)])

text \<open>
  C14. What a handler sends to Redis is decided by the objects of the event alone: on safe objects,
  an ingress event is a fixed list of commands, whatever the server answers and whether or not the
  commands succeed; the old and the new values of an update are prepared under temporary keys
  before the first routing key is written.
\<close>

theorem IgHandler_sends:
  assumes "list_all (ig_safe E) (event_objects ev)"
  shows "deliver (IgHandler ord R E) ev = run_calls R (RedisClient E) (ig_calls ord E ev)"
  by (rule IgHandler_calls [OF assms])

lemma ex_update_calls:
  "ig_calls rev mem_endpoint (UpdateEvent (IngressObj ig_one) (IngressObj ig_one_next)) =
    [One_SUnionStore ''temp_P+https://s.com/a'' ''P+https://s.com/a'',
     One_SRem ''temp_P+https://s.com/a'' ''ns:svc1:80'', One_SRem ''temp_P+https://s.com/a'' ''$ns/one/1'',
     One_SUnionStore ''temp_P+https://s.com/b'' ''P+https://s.com/b'',
     One_SRem ''temp_P+https://s.com/b'' ''ns:svc2:80'', One_SRem ''temp_P+https://s.com/b'' ''$ns/one/1'',
     One_SAdd ''temp_P+https://s.com/a'' ''ns:svc3:80'',
     One_SUnionStore ''P+https://s.com/b'' ''temp_P+https://s.com/b'', One_Del ''temp_P+https://s.com/b'',
     One_SUnionStore ''P+https://s.com/a'' ''temp_P+https://s.com/a'', One_Del ''temp_P+https://s.com/a'',
     Print_Keys]"
  by code_simp

theorem IgHandler_sends_witness:
  "deliver (IgHandler rev mem_redis mem_endpoint) (UpdateEvent (IngressObj ig_one) (IngressObj ig_one_next)) =
   run_calls mem_redis (RedisClient mem_endpoint)
    [One_SUnionStore ''temp_P+https://s.com/a'' ''P+https://s.com/a'',
     One_SRem ''temp_P+https://s.com/a'' ''ns:svc1:80'', One_SRem ''temp_P+https://s.com/a'' ''$ns/one/1'',
     One_SUnionStore ''temp_P+https://s.com/b'' ''P+https://s.com/b'',
     One_SRem ''temp_P+https://s.com/b'' ''ns:svc2:80'', One_SRem ''temp_P+https://s.com/b'' ''$ns/one/1'',
     One_SAdd ''temp_P+https://s.com/a'' ''ns:svc3:80'',
     One_SUnionStore ''P+https://s.com/b'' ''temp_P+https://s.com/b'', One_Del ''temp_P+https://s.com/b'',
     One_SUnionStore ''P+https://s.com/a'' ''temp_P+https://s.com/a'', One_Del ''temp_P+https://s.com/a'',
     Print_Keys]"
proof -
  have "list_all (ig_safe mem_endpoint)
      (event_objects (UpdateEvent (IngressObj ig_one) (IngressObj ig_one_next)))"
    using ex_safe by simp
  from IgHandler_sends [OF this, of rev mem_redis] show ?thesis
    by (simp only: ex_update_calls)
qed

text \<open>
  C8. The informers run their handlers in threads of their own, so that the commands of ingress
  events and of endpoints events reach the server in any interleaving. None of the interleavings
  panics, and each leaves in database 1 what the ingress events alone and in database 0 what the
  endpoints events alone would have left.
\<close>

theorem handlers_interleave:
  assumes "redis_server R members up" "client_open (RedisClient E)" "up s"
    and "list_all (\<lambda>ev. list_all (ig_safe E) (event_objects ev)) igs"
    and "zs \<in> shuffles (concat (map (ig_calls ord E) igs)) (concat (map (ep_calls E) eps))"
  shows "\<exists>s' t u. run_calls R (RedisClient E) zs s = Ok s' \<and> up s'
    \<and> deliver_all (IgHandler ord R E) igs s = Ok t \<and> members s' 1 = members t 1
    \<and> deliver_all (EpHandler R E) eps s = Ok u \<and> members s' 0 = members u 0"
proof -
  let ?xs = "concat (map (ig_calls ord E) igs)" and ?ys = "concat (map (ep_calls E) eps)"
  note run = run_calls_result [OF assms(1-3)]
  have ig: "deliver_all (IgHandler ord R E) igs = run_calls R (RedisClient E) ?xs"
    by (rule deliver_all_calls) (use assms(4) in \<open>auto simp: list_all_iff intro!: IgHandler_calls\<close>)
  have ep: "deliver_all (EpHandler R E) eps = run_calls R (RedisClient E) ?ys"
    by (rule deliver_all_calls) (rule EpHandler_calls)
  have 1: "fold call_effect zs (members s) 1 = fold call_effect ?xs (members s) 1"
    by (rule calls_effect_interleaved [OF assms(5) calls_off_db]) (rule ep_calls_db)
  have "zs \<in> shuffles ?ys ?xs" using assms(5) by (simp add: shuffles_commutes)
  then have 0: "fold call_effect zs (members s) 0 = fold call_effect ?ys (members s) 0"
    by (rule calls_effect_interleaved [OF _ calls_off_db]) (rule ig_calls_db)
  show ?thesis
    unfolding ig ep using run [of zs] run [of ?xs] run [of ?ys] 0 1 by metis
qed

lemma ex_interleaving:
  "[Default_SAdd ''ns:svc:80'' ''10.0.0.1#80#http'', One_SAdd ''P+http://t.com/'' ''ns:svc4:80'', Print_Keys,
    Default_SAdd ''ns:svc:80'' ''10.0.0.2#80#http'', Print_Keys]
   \<in> shuffles (concat (map (ig_calls rev mem_endpoint) [AddEvent (IngressObj ig_two)]))
       (concat (map (ep_calls mem_endpoint) [AddEvent (EndpointsObj ep_example)]))"
proof -
  have "ig_calls rev mem_endpoint (AddEvent (IngressObj ig_two)) =
      [One_SAdd ''P+http://t.com/'' ''ns:svc4:80'', Print_Keys]"
    "ep_calls mem_endpoint (AddEvent (EndpointsObj ep_example)) =
      [Default_SAdd ''ns:svc:80'' ''10.0.0.1#80#http'', Default_SAdd ''ns:svc:80'' ''10.0.0.2#80#http'', Print_Keys]"
    by code_simp+
  then show ?thesis by (simp add: Cons_in_shuffles_iff)
qed

theorem handlers_interleave_witness:
  "\<exists>s' t u. run_calls mem_redis (RedisClient mem_endpoint)
      [Default_SAdd ''ns:svc:80'' ''10.0.0.1#80#http'', One_SAdd ''P+http://t.com/'' ''ns:svc4:80'', Print_Keys,
       Default_SAdd ''ns:svc:80'' ''10.0.0.2#80#http'', Print_Keys] mem_empty = Ok s' \<and> mem_up s'
    \<and> deliver_all (IgHandler rev mem_redis mem_endpoint) [AddEvent (IngressObj ig_two)] mem_empty = Ok t
    \<and> mem_members s' 1 = mem_members t 1
    \<and> deliver_all (EpHandler mem_redis mem_endpoint) [AddEvent (EndpointsObj ep_example)] mem_empty = Ok u
    \<and> mem_members s' 0 = mem_members u 0"
proof -
  have safe: "list_all (\<lambda>ev. list_all (ig_safe mem_endpoint) (event_objects ev)) [AddEvent (IngressObj ig_two)]"
    using ex_safe by simp
  show ?thesis
    by (rule handlers_interleave [OF mem.redis_server_axioms, OF mem_open mem_empty_up safe ex_interleaving])
qed

end
