(* ===== verification/Files.thy ===== *)
theory Files
  imports Proxy
begin

text \<open>
  The files the policy handlers rewrite. The calls of the package \<open>os\<close> are a parameter, one
  field per call the handlers make; an error is its text, and a missing file is told apart from
  other read errors. The locale \<open>file_system\<close> states what the handlers rely on: on a healthy
  disk every call does what it says, and a write that fails touches no other file; \<open>failing_files\<close>
  adds what a failing call may leave behind. An in-memory disk that can be full is an instance.
\<close>

section \<open>The calls\<close>

datatype read_error = NotExist | ReadError string

text \<open>
  \<open>OpenAppend\<close> is \<open>os.OpenFile\<close> with \<open>O_APPEND|O_CREATE|O_WRONLY\<close>; the open file is known
  by its path, and \<open>WriteString\<close> writes at its end.
\<close>

record 's file_api =
  ReadFile :: "string \<Rightarrow> 's \<Rightarrow> (read_error + string) \<times> 's"
  WriteFile :: "string \<Rightarrow> string \<Rightarrow> 's \<Rightarrow> string option \<times> 's"
  OpenAppend :: "string \<Rightarrow> 's \<Rightarrow> string option \<times> 's"
  WriteString :: "string \<Rightarrow> string \<Rightarrow> 's \<Rightarrow> string option \<times> 's"
  Rename :: "string \<Rightarrow> string \<Rightarrow> 's \<Rightarrow> string option \<times> 's"

definition newline :: char where
  "newline = CHR 0x0A"

locale file_system =
  fixes F :: "'s file_api"
    and content :: "'s \<Rightarrow> string \<Rightarrow> string option"
    and healthy :: "'s \<Rightarrow> bool"
  assumes read_ok: "healthy s \<Longrightarrow> \<exists>s'. ReadFile F p s =
      ((case content s p of None \<Rightarrow> Inl NotExist | Some d \<Rightarrow> Inr d), s')
      \<and> healthy s' \<and> content s' = content s"
    and write_ok: "healthy s \<Longrightarrow> \<exists>s'. WriteFile F p d s = (None, s')
      \<and> healthy s' \<and> content s' = (content s)(p \<mapsto> d)"
    and open_ok: "healthy s \<Longrightarrow> \<exists>s'. OpenAppend F p s = (None, s') \<and> healthy s'
      \<and> content s' = (content s)(p \<mapsto> (case content s p of None \<Rightarrow> [] | Some d \<Rightarrow> d))"
    and append_ok: "healthy s \<Longrightarrow> content s p = Some d \<Longrightarrow> \<exists>s'. WriteString F p t s = (None, s')
      \<and> healthy s' \<and> content s' = (content s)(p \<mapsto> d @ t)"
    and rename_ok: "healthy s \<Longrightarrow> p \<noteq> q \<Longrightarrow> content s p = Some d \<Longrightarrow> \<exists>s'. Rename F p q s = (None, s')
      \<and> healthy s' \<and> content s' = (content s)(p := None, q \<mapsto> d)"
    and read_frame: "content (snd (ReadFile F p s)) = content s"
    and write_frame: "q \<noteq> p \<Longrightarrow> content (snd (WriteFile F p d s)) q = content s q"
    and write_done: "fst (WriteFile F p d s) = None \<Longrightarrow> content (snd (WriteFile F p d s)) p = Some d"
    and rename_atomic: "content (snd (Rename F p q s)) q = content s q
      \<or> content (snd (Rename F p q s)) q = content s p"

text \<open>
  What also holds on a failing disk: a write that fails leaves the file as it was or with a beginning of
  the new data, and a rename touches no third file.
\<close>

locale failing_files = file_system F content healthy
  for F :: "'s file_api" and content :: "'s \<Rightarrow> string \<Rightarrow> string option" and healthy :: "'s \<Rightarrow> bool" +
  assumes write_partial: "content (snd (WriteFile F p d s)) p = content s p
      \<or> (\<exists>n. content (snd (WriteFile F p d s)) p = Some (take n d))"
    and rename_frame: "r \<noteq> p \<Longrightarrow> r \<noteq> q \<Longrightarrow> content (snd (Rename F p q s)) r = content s r"

section \<open>Programs that reload the proxy\<close>

text \<open>
  The handlers' state: the manager and the world its commands and the files live in. A reload of
  the proxy does not touch the files.
\<close>

type_synonym 'x ats_state = "ats_manager option \<times> 'x"

text \<open>What holds between two events of such a handler: there is a manager, of a fixed class.\<close>

definition managed :: "string \<Rightarrow> 'x ats_state \<Rightarrow> bool" where
  "managed c s \<longleftrightarrow> (case fst s of None \<Rightarrow> False | Some m \<Rightarrow> class_of m = c)"

lemma managed_simps [simp]: "managed c (Some m, x) \<longleftrightarrow> class_of m = c" "\<not> managed c (None, x)"
  by (simp_all add: managed_def)

lemma managedE:
  assumes "managed c s"
  obtains m x where "s = (Some m, x)" "class_of m = c"
  using assms by (cases s) (auto simp: managed_def split: option.splits)

locale ats_files = file_system F content healthy
  for F :: "'s file_api" and content :: "'s \<Rightarrow> string \<Rightarrow> string option" and healthy :: "'s \<Rightarrow> bool" +
  fixes env :: "'s ats_env"
  assumes reload_content: "content (snd (run_cmd env [''traffic_ctl'', ''config'', ''reload''] s)) = content s"
    and reload_healthy: "healthy s \<Longrightarrow> healthy (snd (run_cmd env [''traffic_ctl'', ''config'', ''reload''] s))"
begin

lemma CacheSet_files:
  "\<exists>r m' s'. CacheSet env (m, s) = (r, (m', s')) \<and> content s' = content s \<and> (healthy s \<longrightarrow> healthy s')"
  using reload_content [of s] reload_healthy [of s]
  by (cases m) (auto simp: ATSManager_CacheSet_def split: prod.split sum.split)

lemma SniSet_files:
  "\<exists>r m' s'. SniSet env (m, s) = (r, (m', s')) \<and> content s' = content s \<and> (healthy s \<longrightarrow> healthy s')"
  using reload_content [of s] reload_healthy [of s]
  by (cases m) (auto simp: ATSManager_SniSet_def split: prod.split sum.split)

end

section \<open>An in-memory disk\<close>

text \<open>
  On a full disk a write leaves half of the data behind and appending and renaming fail; on an
  unreadable one reading fails. Commands are logged.
\<close>

record mem_disk =
  disk_files :: "(string, string) gomap"
  disk_full :: bool
  unreadable :: bool
  commands :: "string list list"

definition disk_set :: "string \<Rightarrow> string \<Rightarrow> mem_disk \<Rightarrow> mem_disk" where
  "disk_set p d s = s\<lparr>disk_files := gm_set p d (disk_files s)\<rparr>"

definition mem_files :: "mem_disk file_api" where
  "mem_files = \<lparr>
     ReadFile = (\<lambda>p s.
       (if unreadable s then Inl (ReadError ''permission denied'')
        else (case gm_get (disk_files s) p of None \<Rightarrow> Inl NotExist | Some d \<Rightarrow> Inr d), s)),
     WriteFile = (\<lambda>p d s.
       if disk_full s then (Some ''no space left on device'', disk_set p (take (length d div 2) d) s)
       else (None, disk_set p d s)),
     OpenAppend = (\<lambda>p s.
       if disk_full s then (Some ''no space left on device'', s)
       else (None, disk_set p (case gm_get (disk_files s) p of None \<Rightarrow> [] | Some d \<Rightarrow> d) s)),
     WriteString = (\<lambda>p t s.
       if disk_full s then (Some ''no space left on device'', s)
       else (None, disk_set p ((case gm_get (disk_files s) p of None \<Rightarrow> [] | Some d \<Rightarrow> d) @ t) s)),
     Rename = (\<lambda>p q s.
       case gm_get (disk_files s) p of
         None \<Rightarrow> (Some ''no such file or directory'', s)
       | Some d \<Rightarrow>
           if disk_full s then (Some ''no space left on device'', s)
           else (None, s\<lparr>disk_files := gm_set q d (gm_delete p (disk_files s))\<rparr>))\<rparr>"

definition mem_content :: "mem_disk \<Rightarrow> string \<Rightarrow> string option" where
  "mem_content s p = gm_get (disk_files s) p"

definition mem_healthy :: "mem_disk \<Rightarrow> bool" where
  "mem_healthy s \<longleftrightarrow> \<not> disk_full s \<and> \<not> unreadable s"

definition mem_run :: "mem_disk run_command" where
  "mem_run cmd s = (Inr [], s\<lparr>commands := commands s @ [cmd]\<rparr>)"

definition mem_env :: "mem_disk ats_env" where
  "mem_env = \<lparr>run_cmd = mem_run, unicode_quote = (\<lambda>s. s)\<rparr>"

lemma mem_content_set [simp]: "mem_content (disk_set p d s) = (mem_content s)(p \<mapsto> d)"
  by (simp add: mem_content_def disk_set_def gomap_simps fun_eq_iff)

lemma mem_healthy_set [simp]: "mem_healthy (disk_set p d s) = mem_healthy s"
  by (simp add: mem_healthy_def disk_set_def)

interpretation mem_fs: file_system mem_files mem_content mem_healthy
  by unfold_locales
    (auto simp: mem_files_def mem_content_def mem_healthy_def disk_set_def gomap_simps fun_eq_iff
      split: option.splits)

interpretation mem_failing: failing_files mem_files mem_content mem_healthy
proof
  fix p d :: string and s
  have "\<exists>n. content = Some (take n d)" if "content = Some d \<or> content = Some (take (length d div 2) d)" for content
    using that by (metis take_all order_refl)
  then show "mem_content (snd (WriteFile mem_files p d s)) p = mem_content s p
      \<or> (\<exists>n. mem_content (snd (WriteFile mem_files p d s)) p = Some (take n d))"
    by (auto simp: mem_files_def)
next
  fix r p q :: string and s
  assume "r \<noteq> p" "r \<noteq> q"
  then show "mem_content (snd (Rename mem_files p q s)) r = mem_content s r"
    by (auto simp: mem_files_def mem_content_def gomap_simps split: option.split)
qed

interpretation mem_ats: ats_files mem_files mem_content mem_healthy mem_env
  by unfold_locales (simp_all add: mem_env_def mem_run_def mem_content_def mem_healthy_def fun_eq_iff)

definition mem_disk_empty :: mem_disk where
  "mem_disk_empty = \<lparr>disk_files = [], disk_full = False, unreadable = False, commands = []\<rparr>"

end
