(* ===== verification/Configmap_Handler.thy ===== *)
theory Configmap_Handler
  imports Event_Handler Files
begin

text \<open>
  \<open>watcher/handlerConfigmap.go\<close>: the entries of an annotated ConfigMap are configuration settings
  of Apache Traffic Server. The handler's state is the manager it calls (nil when there is none,
  and then a call panics; the Config map of a fake manager is not nil) with the state of the world
  the manager's commands run in. The results of \<open>ConfigSet\<close> are only logged. What the commands do to
  Traffic Server's configuration is the contract \<open>traffic_ctl\<close>.
\<close>

section \<open>The handler\<close>

definition config_entry :: "'x ats_env \<Rightarrow> string \<Rightarrow> string \<Rightarrow> 'x ats_state prog" where
  "config_entry env currKey currVal = (\<lambda>(manager, x).
     case manager of
       None \<Rightarrow> Panic (manager, x)
     | Some m \<Rightarrow> (case ConfigSet env currKey currVal (m, x) of (_, (m', x')) \<Rightarrow> Ok (Some m', x')))"

definition CMHandler_update :: "map_order \<Rightarrow> 'x ats_env \<Rightarrow> k8s_obj \<Rightarrow> 'x ats_state prog" where
  "CMHandler_update ord env newObj =
     (case as_configmap newObj of
        None \<Rightarrow> skip
      | Some cm \<Rightarrow>
          (case gm_get (Annotations cm) ''ats-configmap'' of
             None \<Rightarrow> skip
           | Some val \<Rightarrow>
               if val \<noteq> ''true'' then skip
               else for_each (\<lambda>(currKey, currVal). config_entry env currKey currVal) (ord (Data cm))))"

definition CMHandler_Add :: "map_order \<Rightarrow> 'x ats_env \<Rightarrow> k8s_obj \<Rightarrow> 'x ats_state prog" where
  "CMHandler_Add ord env obj = CMHandler_update ord env obj"

definition CMHandler_Update :: "map_order \<Rightarrow> 'x ats_env \<Rightarrow> k8s_obj \<Rightarrow> k8s_obj \<Rightarrow> 'x ats_state prog" where
  "CMHandler_Update ord env obj newObj = CMHandler_update ord env newObj"

definition CMHandler_Delete :: "k8s_obj \<Rightarrow> 'x ats_state prog" where
  "CMHandler_Delete obj = skip"

definition CMHandler :: "map_order \<Rightarrow> 'x ats_env \<Rightarrow> (k8s_obj, 'x ats_state) EventHandler" where
  "CMHandler ord env = \<lparr>Add = CMHandler_Add ord env, Update = CMHandler_Update ord env,
     Delete = CMHandler_Delete, GetResourceName = ''configmaps''\<rparr>"

section \<open>What it sets\<close>

text \<open>The settings an event's object carries: none unless it is a ConfigMap annotated \<open>true\<close>.\<close>

definition cm_settings :: "k8s_obj \<Rightarrow> (string, string) gomap" where
  "cm_settings obj =
     (case as_configmap obj of
        None \<Rightarrow> []
      | Some cm \<Rightarrow> if gm_get (Annotations cm) ''ats-configmap'' = Some ''true'' then Data cm else [])"

lemma CMHandler_update_settings:
  assumes "range_order ord"
  shows "CMHandler_update ord env obj =
    for_each (\<lambda>(k, v). config_entry env k v) (ord (cm_settings obj))"
proof -
  have "ord [] = []" using range_order_set [OF assms, of "[]"] by simp
  then show ?thesis by (auto simp: CMHandler_update_def cm_settings_def split: option.split)
qed

lemma config_loop_fake:
  "for_each (\<lambda>(k, v). config_entry env k v) kvs (Some (FakeATS m), x)
   = Ok (Some (FakeATS (m\<lparr>Config := fold (\<lambda>(k, v). gm_set k v) kvs (Config m)\<rparr>)), x)"
  by (induction kvs arbitrary: m)
    (auto simp: skip_def seq_def config_entry_def FakeATSManager_ConfigSet_def)

lemma config_loop_real:
  "for_each (\<lambda>(k, v). config_entry env k v) kvs (Some (ATS m), x)
   = Ok (Some (ATS m), fold (\<lambda>(k, v) x. snd (run_cmd env [''traffic_ctl'', ''config'', ''set'', k, v] x)) kvs x)"
  by (induction kvs arbitrary: x)
    (auto simp: skip_def seq_def config_entry_def ATSManager_ConfigSet_def split: prod.split sum.split)


lemma gm_get_fold_set:
  "gm_get (fold (\<lambda>(k, v). gm_set k v) kvs m) = gm_get m ++ gm_get (rev kvs)"
  by (induction kvs arbitrary: m) (auto simp: gm_get_set)

lemma range_order_rev_map_of:
  "range_order ord \<Longrightarrow> gm_wf m \<Longrightarrow> gm_get (rev (ord m)) = gm_get m"
  using range_order_map_of [of "\<lambda>m. rev (ord m)" m] by (simp add: range_order_def)

lemma range_order_filter:
  assumes "range_order ord" "gm_wf m"
  shows "gm_get (rev (filter P (ord m))) = gm_get (filter P m)"
proof -
  have "gm_wf (rev (filter P (ord m)))" "gm_wf (filter P m)"
    using range_order_distinct_keys [OF assms] assms(2)
    by (simp_all add: gm_wf_def distinct_map_filter rev_map [symmetric])
  moreover have "set (rev (filter P (ord m))) = set (filter P m)"
    using range_order_set [OF assms(1), of m] by simp
  ultimately show ?thesis unfolding gm_wf_def by (simp only: map_of_inject_set)
qed

section \<open>What the commands do\<close>

text \<open>
  What \<open>traffic_ctl config set\<close> is documented to do, while Traffic Server is running (\<open>working\<close>): a
  setting that the server accepts becomes the value of its key and no other value changes; for a
  setting that it rejects the command fails and no value changes. The values are read by \<open>config\<close>.
\<close>

locale traffic_ctl =
  fixes env :: "'x ats_env"
    and config :: "'x \<Rightarrow> string \<Rightarrow> string option"
    and working :: "'x \<Rightarrow> bool"
    and settable :: "string \<Rightarrow> string \<Rightarrow> bool"
  assumes set_accepted: "\<lbrakk>working s; settable k v\<rbrakk> \<Longrightarrow> \<exists>out s'. run_cmd env [''traffic_ctl'', ''config'', ''set'', k, v] s
      = (Inr out, s') \<and> working s' \<and> config s' = (config s)(k \<mapsto> v)"
    and set_rejected: "\<lbrakk>working s; \<not> settable k v\<rbrakk> \<Longrightarrow> \<exists>err s'. run_cmd env [''traffic_ctl'', ''config'', ''set'', k, v] s
      = (Inl err, s') \<and> working s' \<and> config s' = config s"
begin

lemma set_one:
  assumes "working s"
  shows "working (snd (run_cmd env [''traffic_ctl'', ''config'', ''set'', k, v] s))
    \<and> config (snd (run_cmd env [''traffic_ctl'', ''config'', ''set'', k, v] s))
        = (if settable k v then (config s)(k \<mapsto> v) else config s)"
  using set_accepted [OF assms, of k v] set_rejected [OF assms, of k v] by force

lemma set_all:
  assumes "working s"
  shows "working (fold (\<lambda>(k, v) x. snd (run_cmd env [''traffic_ctl'', ''config'', ''set'', k, v] x)) kvs s)
    \<and> config (fold (\<lambda>(k, v) x. snd (run_cmd env [''traffic_ctl'', ''config'', ''set'', k, v] x)) kvs s)
        = config s ++ gm_get (rev (filter (\<lambda>(k, v). settable k v) kvs))"
  using assms
proof (induction kvs arbitrary: s)
  case (Cons kv kvs)
  obtain k v where kv: "kv = (k, v)" by (cases kv)
  from Cons.IH [of "snd (run_cmd env [''traffic_ctl'', ''config'', ''set'', k, v] s)"] set_one [OF Cons.prems, of k v]
  show ?case by (simp add: kv)
qed simp

end

text \<open>
  A server in memory: the values are those of the commands that were run; keys that do not start
  with \<open>proxy.config.\<close> are rejected.
\<close>

definition ctl_run :: "mem_disk run_command" where
  "ctl_run cmd s = (case cmd of
     [_, _, op, k, v] \<Rightarrow> if op = ''set'' \<and> \<not> prefix ''proxy.config.'' k then (Inl ''exit status 1'', s) else mem_run cmd s
   | _ \<Rightarrow> mem_run cmd s)"

definition ctl_env :: "mem_disk ats_env" where
  "ctl_env = \<lparr>run_cmd = ctl_run, unicode_quote = (\<lambda>s. s)\<rparr>"

fun ctl_record :: "string list \<Rightarrow> (string, string) gomap \<Rightarrow> (string, string) gomap" where
  "ctl_record [_, _, op, k, v] m = (if op = ''set'' then gm_set k v m else m)"
| "ctl_record _ m = m"

definition ctl_config :: "mem_disk \<Rightarrow> string \<Rightarrow> string option" where
  "ctl_config s = gm_get (fold ctl_record (commands s) [])"

interpretation mem_traffic: traffic_ctl ctl_env ctl_config "\<lambda>_. True" "\<lambda>k v. prefix ''proxy.config.'' k"
  by unfold_locales
    (simp_all add: ctl_env_def ctl_run_def mem_run_def ctl_config_def gm_get_set fun_eq_iff)

section \<open>Properties\<close>

definition cm_valid :: "k8s_obj \<Rightarrow> bool" where
  "cm_valid obj = (case as_configmap obj of None \<Rightarrow> True | Some cm \<Rightarrow> gm_wf (Data cm))"

lemma cm_settings_wf: "cm_valid obj \<Longrightarrow> gm_wf (cm_settings obj)"
  by (auto simp: cm_valid_def cm_settings_def split: option.splits)

text \<open>The handler satisfies the contract of an event handler as long as there is a manager.\<close>

lemma CMHandler_update_returns:
  assumes "range_order ord"
  shows "\<exists>m' x'. CMHandler_update ord env obj (Some m, x) = Ok (Some m', x') \<and> class_of m' = class_of m"
  by (cases m) (simp_all add: CMHandler_update_settings [OF assms] config_loop_fake config_loop_real)

lemma CMHandler_contract:
  assumes "range_order ord"
  shows "event_handler (CMHandler ord env) (\<lambda>_. True) (managed c)"
  using CMHandler_update_returns [OF assms]
  by unfold_locales
    (force simp: CMHandler_def CMHandler_Add_def CMHandler_Update_def CMHandler_Delete_def skip_def
      elim!: managedE)+

interpretation cm: event_handler "CMHandler (\<lambda>m. m) env" "\<lambda>_. True"
    "managed c" for env c
  by (rule CMHandler_contract) simp

text \<open>
  Against the manager of the tests, an add or update event makes the configuration the old one
  overridden by the settings of a ConfigMap annotated \<open>ats-configmap: true\<close>, whatever the order
  of the range loop; any other object changes nothing. Settings that a new version of the ConfigMap
  no longer has are kept.
\<close>

theorem CMHandler_overrides_fake:
  assumes "range_order ord" "cm_valid newObj"
  shows "\<exists>m'. CMHandler_Update ord env obj newObj (Some (FakeATS m), x) = Ok (Some (FakeATS m'), x)
    \<and> CMHandler_Add ord env newObj (Some (FakeATS m), x) = Ok (Some (FakeATS m'), x)
    \<and> IngressClass m' = IngressClass m
    \<and> gm_get (Config m') = gm_get (Config m) ++ gm_get (cm_settings newObj)"
  using range_order_rev_map_of [OF assms(1) cm_settings_wf [OF assms(2)]]
  by (simp add: CMHandler_Update_def CMHandler_Add_def CMHandler_update_settings [OF assms(1)]
      config_loop_fake gm_get_fold_set)

definition cm_example :: ConfigMap where
  "cm_example = \<lparr>Name = ''cm'', Namespace = ''ns'', ResourceVersion = ''1'',
     Annotations = [(''ats-configmap'', ''true'')],
     Data = [(''proxy.config.a'', ''1''), (''proxy.config.b'', ''2'')]\<rparr>"

definition fake_example :: FakeATSManager where
  "fake_example = \<lparr>ATSNamespace = ''ns'', IngressClass = [], Config = [(''proxy.config.a'', ''0'')]\<rparr>"

theorem CMHandler_overrides_fake_witness:
  "\<exists>m'. CMHandler_Update rev mem_env OtherObj (ConfigMapObj cm_example) (Some (FakeATS fake_example), mem_disk_empty)
      = Ok (Some (FakeATS m'), mem_disk_empty)
    \<and> gm_get (Config m') ''proxy.config.a'' = Some ''1''"
proof -
  have o: "range_order (rev :: map_order)" by simp
  have v: "cm_valid (ConfigMapObj cm_example)" by code_simp
  have s: "gm_get (cm_settings (ConfigMapObj cm_example)) ''proxy.config.a'' = Some ''1''" by code_simp
  obtain m' where m': "CMHandler_Update rev mem_env OtherObj (ConfigMapObj cm_example) (Some (FakeATS fake_example), mem_disk_empty)
      = Ok (Some (FakeATS m'), mem_disk_empty)"
    "gm_get (Config m') = gm_get (Config fake_example) ++ gm_get (cm_settings (ConfigMapObj cm_example))"
    using CMHandler_overrides_fake [OF o v, of mem_env OtherObj fake_example mem_disk_empty] by blast
  then show ?thesis using s by auto
qed

definition cm_mixed :: ConfigMap where
  "cm_mixed = \<lparr>Name = ''cm'', Namespace = ''ns'', ResourceVersion = ''1'',
     Annotations = [(''ats-configmap'', ''true'')], Data = [(''a'', ''0''), (''proxy.config.a'', ''1'')]\<rparr>"

definition ats_example :: ATSManager where
  "ats_example = \<lparr>ATSNamespace = ''ns'', IngressClass = []\<rparr>"

text \<open>
  C29. With a running Traffic Server, an add or update event makes its configuration the old one
  overridden by the settings of a ConfigMap annotated \<open>ats-configmap: true\<close>, whatever the order of the
  range loop; any other object changes nothing. A setting that the server rejects is left out and
  does not keep the others from being made. Settings that a new version of the ConfigMap
  no longer has are kept.
\<close>

theorem CMHandler_overrides:
  assumes "traffic_ctl env config working settable" "range_order ord" "cm_valid newObj" "working x"
  shows "\<exists>x'. CMHandler_Update ord env obj newObj (Some (ATS m), x) = Ok (Some (ATS m), x')
    \<and> CMHandler_Add ord env newObj (Some (ATS m), x) = Ok (Some (ATS m), x')
    \<and> working x'
    \<and> config x' = config x ++ gm_get (filter (\<lambda>(k, v). settable k v) (cm_settings newObj))"
proof -
  have "gm_get (rev (filter (\<lambda>(k, v). settable k v) (ord (cm_settings newObj))))
      = gm_get (filter (\<lambda>(k, v). settable k v) (cm_settings newObj))"
    by (rule range_order_filter [OF assms(2) cm_settings_wf [OF assms(3)]])
  with traffic_ctl.set_all [OF assms(1,4), of "ord (cm_settings newObj)"] show ?thesis
    by (simp add: CMHandler_Update_def CMHandler_Add_def CMHandler_update_settings [OF assms(2)] config_loop_real)
qed

theorem CMHandler_overrides_witness:
  "\<exists>x'. CMHandler_Update rev ctl_env OtherObj (ConfigMapObj cm_mixed) (Some (ATS ats_example), mem_disk_empty)
      = Ok (Some (ATS ats_example), x')
    \<and> ctl_config x' ''proxy.config.a'' = Some ''1'' \<and> ctl_config x' ''a'' = None"
proof -
  let ?set = "filter (\<lambda>(k, v). prefix ''proxy.config.'' k) (cm_settings (ConfigMapObj cm_mixed))"
  have o: "range_order (rev :: map_order)" by simp
  have v: "cm_valid (ConfigMapObj cm_mixed)" by code_simp
  have s: "ctl_config mem_disk_empty = Map.empty" "gm_get ?set ''proxy.config.a'' = Some ''1''" "gm_get ?set ''a'' = None"
    by (simp add: ctl_config_def mem_disk_empty_def fun_eq_iff) code_simp+
  show ?thesis
    using CMHandler_overrides [OF mem_traffic.traffic_ctl_axioms o v TrueI, of OtherObj ats_example mem_disk_empty]
      s by force
qed



end
