(* ===== verification/Cache_Handler.thy ===== *)
theory Cache_Handler
  imports Event_Handler Files
begin

text \<open>
  \<open>watcher/handlerCache.go\<close>: the rules of an ATSCachingPolicy are lines of \<open>cache.config\<close>. The
  state is the manager and the world the file lives in; log lines are left out. The lookups
  \<open>NestedSlice\<close> and \<open>NestedMap\<close> of apimachinery are the parameter \<open>lib\<close>.
\<close>

section \<open>The handler\<close>

definition UpdateAts :: "'s ats_env \<Rightarrow> 's ats_state prog" where
  "UpdateAts env = (\<lambda>(manager, s).
     case manager of
       None \<Rightarrow> Panic (manager, s)
     | Some m \<Rightarrow> (case CacheSet env (m, s) of (_, (m', s')) \<Rightarrow> Ok (Some m', s')))"

text \<open>The primary specifier of a rule; a rule that is not a map or has none is skipped.\<close>

definition rule_primary :: "unstructured_lib \<Rightarrow> json \<Rightarrow> ((string, json) gomap \<times> (string, json) gomap) option" where
  "rule_primary lib rule =
     (case as_map rule of
        None \<Rightarrow> None
      | Some ruleMap \<Rightarrow>
          (case NestedMap lib ruleMap [''primarySpecifier''] of
             Found primary \<Rightarrow> Some (ruleMap, primary)
           | NotFound \<Rightarrow> None
           | NestedError err \<Rightarrow> None))"

definition cache_key :: "string \<Rightarrow> string \<Rightarrow> string" where
  "cache_key typeval pattern = typeval @ ''='' @ pattern"

text \<open>Type, pattern and ttl of a rule that Add and Update act on: all strings, action cache.\<close>

definition cache_rule :: "unstructured_lib \<Rightarrow> json \<Rightarrow> (string \<times> string \<times> string) option" where
  "cache_rule lib rule =
     (case rule_primary lib rule of
        None \<Rightarrow> None
      | Some (ruleMap, primary) \<Rightarrow>
          (case (as_string (gm_get primary ''type''), as_string (gm_get primary ''pattern''),
                 as_string (gm_get ruleMap ''action''), as_string (gm_get ruleMap ''ttl'')) of
             (Some typeval, Some pattern, Some action, Some ttl) \<Rightarrow>
               if action = ''cache'' then Some (typeval, pattern, ttl) else None
           | _ \<Rightarrow> None))"

text \<open>Delete does not look at the ttl.\<close>

definition delete_rule :: "unstructured_lib \<Rightarrow> json \<Rightarrow> (string \<times> string) option" where
  "delete_rule lib rule =
     (case rule_primary lib rule of
        None \<Rightarrow> None
      | Some (ruleMap, primary) \<Rightarrow>
          (case (as_string (gm_get primary ''type''), as_string (gm_get primary ''pattern''),
                 as_string (gm_get ruleMap ''action'')) of
             (Some typeval, Some pattern, Some action) \<Rightarrow>
               if action = ''cache'' then Some (typeval, pattern) else None
           | _ \<Rightarrow> None))"

definition cache_line :: "string \<times> string \<times> string \<Rightarrow> string" where
  "cache_line = (\<lambda>(typeval, pattern, ttl). cache_key typeval pattern @ '' ttl-in-cache='' @ ttl)"

definition write_lines :: "'s file_api \<Rightarrow> string \<Rightarrow> string list \<Rightarrow> 's \<Rightarrow> 's" where
  "write_lines F configPath lines s =
     fold (\<lambda>line s. snd (WriteString F configPath (line @ [newline]) s)) lines s"

definition AtsCacheHandler_Add ::
    "unstructured_lib \<Rightarrow> 's file_api \<Rightarrow> 's ats_env \<Rightarrow> string \<Rightarrow> k8s_obj \<Rightarrow> 's ats_state prog" where
  "AtsCacheHandler_Add lib F env configPath obj = (\<lambda>(manager, s).
     case as_unstructured obj of
       None \<Rightarrow> Panic (manager, s)
     | Some u \<Rightarrow>
         (case NestedSlice lib (Object u) [''spec'', ''rules''] of
            Found rules \<Rightarrow>
              (let lines = map cache_line (List.map_filter (cache_rule lib) rules) in
               case OpenAppend F configPath s of
                 (Some err, s') \<Rightarrow> Ok (manager, s')
               | (None, s') \<Rightarrow> UpdateAts env (manager, write_lines F configPath lines s'))
          | NotFound \<Rightarrow> Ok (manager, s)
          | NestedError err \<Rightarrow> Ok (manager, s)))"

text \<open>The first line that contains the key of a rule is replaced.\<close>

fun replace_line :: "string \<Rightarrow> string \<Rightarrow> string list \<Rightarrow> string list" where
  "replace_line key new [] = []"
| "replace_line key new (line # lines) =
     (if contains line key then new # lines else line # replace_line key new lines)"

definition update_rule :: "string \<times> string \<times> string \<Rightarrow> string list \<Rightarrow> string list" where
  "update_rule = (\<lambda>(typeval, pattern, newTTL).
     replace_line (cache_key typeval pattern) (cache_line (typeval, pattern, newTTL)))"

definition AtsCacheHandler_Update ::
    "unstructured_lib \<Rightarrow> 's file_api \<Rightarrow> 's ats_env \<Rightarrow> string \<Rightarrow> k8s_obj \<Rightarrow> k8s_obj \<Rightarrow> 's ats_state prog" where
  "AtsCacheHandler_Update lib F env configPath oldObj newObj = (\<lambda>(manager, s).
     case as_unstructured newObj of
       None \<Rightarrow> Panic (manager, s)
     | Some newU \<Rightarrow>
         (case NestedSlice lib (Object newU) [''spec'', ''rules''] of
            Found newRules \<Rightarrow>
              (case ReadFile F configPath s of
                 (Inl err, s') \<Rightarrow> Ok (manager, s')
               | (Inr existingData, s') \<Rightarrow>
                   (let lines = split_on newline existingData;
                        lines' = fold update_rule (List.map_filter (cache_rule lib) newRules) lines
                    in case WriteFile F configPath (join_with newline lines') s' of
                         (_, s'') \<Rightarrow> UpdateAts env (manager, s'')))
          | NotFound \<Rightarrow> Ok (manager, s)
          | NestedError err \<Rightarrow> Ok (manager, s)))"

text \<open>
  The patterns to delete are a map from type to pattern; a line goes when it contains the key of
  some entry. \<open>ord\<close> is the order of the inner range loop.
\<close>

definition patternsToDelete :: "(string \<times> string) list \<Rightarrow> (string, string) gomap" where
  "patternsToDelete tps = fold (\<lambda>(typeval, pattern). gm_set typeval pattern) tps []"

definition AtsCacheHandler_Delete ::
    "map_order \<Rightarrow> unstructured_lib \<Rightarrow> 's file_api \<Rightarrow> 's ats_env \<Rightarrow> string \<Rightarrow> k8s_obj \<Rightarrow> 's ats_state prog" where
  "AtsCacheHandler_Delete ord lib F env configPath obj = (\<lambda>(manager, s).
     case as_unstructured obj of
       None \<Rightarrow> Panic (manager, s)
     | Some u \<Rightarrow>
         (case ReadFile F configPath s of
            (Inl err, s') \<Rightarrow> Ok (manager, s')
          | (Inr existingData, s') \<Rightarrow>
              (case NestedSlice lib (Object u) [''spec'', ''rules''] of
                 Found rules \<Rightarrow>
                   (let lines = split_on newline existingData;
                        patterns = patternsToDelete (List.map_filter (delete_rule lib) rules);
                        updatedLines = filter (\<lambda>line. \<not> list_ex (\<lambda>(typeval, pattern).
                          contains line (cache_key typeval pattern)) (ord patterns)) lines
                    in case WriteFile F configPath (join_with newline updatedLines) s' of
                         (_, s'') \<Rightarrow> UpdateAts env (manager, s''))
               | NotFound \<Rightarrow> Ok (manager, s')
               | NestedError err \<Rightarrow> Ok (manager, s'))))"

definition AtsCacheHandler :: "map_order \<Rightarrow> unstructured_lib \<Rightarrow> 's file_api \<Rightarrow> 's ats_env \<Rightarrow> string
    \<Rightarrow> (k8s_obj, 's ats_state) EventHandler" where
  "AtsCacheHandler ord lib F env path = \<lparr>Add = AtsCacheHandler_Add lib F env path,
     Update = AtsCacheHandler_Update lib F env path, Delete = AtsCacheHandler_Delete ord lib F env path,
     GetResourceName = ''atscaching''\<rparr>"

text \<open>
  The contract of the handler: on objects of the dynamic informer it returns normally, whatever the
  files and the commands do, and keeps the manager.
\<close>

definition policy_valid :: "k8s_obj \<Rightarrow> bool" where
  "policy_valid obj \<longleftrightarrow> as_unstructured obj \<noteq> None"

lemma UpdateAts_managed:
  assumes "class_of m = c"
  shows "\<exists>s'. UpdateAts env (Some m, x) = Ok s' \<and> managed c s'"
proof -
  obtain r m' x' where "CacheSet env (m, x) = (r, (m', x'))" by (metis prod.exhaust)
  with CacheSet_class [of env "(m, x)"] assms show ?thesis by (auto simp: UpdateAts_def)
qed

lemma AtsCacheHandler_Add_managed:
  assumes "policy_valid obj" "managed c s"
  shows "\<exists>s'. AtsCacheHandler_Add lib F env path obj s = Ok s' \<and> managed c s'"
  using assms
  by (auto simp: policy_valid_def AtsCacheHandler_Add_def Let_def intro: UpdateAts_managed
      simp del: split_paired_Ex split: nested.split prod.split option.split elim!: managedE)

lemma AtsCacheHandler_Update_managed:
  assumes "policy_valid newObj" "managed c s"
  shows "\<exists>s'. AtsCacheHandler_Update lib F env path oldObj newObj s = Ok s' \<and> managed c s'"
  using assms
  by (auto simp: policy_valid_def AtsCacheHandler_Update_def Let_def intro: UpdateAts_managed
      simp del: split_paired_Ex split: nested.split prod.split sum.split elim!: managedE)

lemma AtsCacheHandler_Delete_managed:
  assumes "policy_valid obj" "managed c s"
  shows "\<exists>s'. AtsCacheHandler_Delete ord lib F env path obj s = Ok s' \<and> managed c s'"
  using assms
  by (auto simp: policy_valid_def AtsCacheHandler_Delete_def Let_def intro: UpdateAts_managed
      simp del: split_paired_Ex split: nested.split prod.split sum.split elim!: managedE)

interpretation caching: event_handler "AtsCacheHandler ord lib F env path" policy_valid "managed c"
  for ord lib F env path c
  by unfold_locales (simp_all add: AtsCacheHandler_def AtsCacheHandler_Add_managed
      AtsCacheHandler_Update_managed AtsCacheHandler_Delete_managed del: split_paired_Ex)

section \<open>Effect on the file\<close>

text \<open>The rules of an object, when the handler acts on it.\<close>

definition policy_rules :: "unstructured_lib \<Rightarrow> string \<Rightarrow> k8s_obj \<Rightarrow> json list option" where
  "policy_rules lib field obj =
     (case as_unstructured obj of
        None \<Rightarrow> None
      | Some u \<Rightarrow> (case NestedSlice lib (Object u) [''spec'', field] of
                    Found rules \<Rightarrow> Some rules | NotFound \<Rightarrow> None | NestedError err \<Rightarrow> None))"

definition cache_rules :: "unstructured_lib \<Rightarrow> json list \<Rightarrow> (string \<times> string \<times> string) list" where
  "cache_rules lib rules = List.map_filter (cache_rule lib) rules"

definition delete_rules :: "unstructured_lib \<Rightarrow> json list \<Rightarrow> (string \<times> string) list" where
  "delete_rules lib rules = List.map_filter (delete_rule lib) rules"

text \<open>A file as lines, each ended by a line feed.\<close>

definition text_of :: "string list \<Rightarrow> string" where
  "text_of lines = concat (map (\<lambda>line. line @ [newline]) lines)"

lemma policy_rules_Some:
  "policy_rules lib field obj = Some rules \<longleftrightarrow>
   (\<exists>u. as_unstructured obj = Some u \<and> NestedSlice lib (Object u) [''spec'', field] = Found rules)"
  by (auto simp: policy_rules_def split: option.splits nested.splits)

context ats_files
begin

lemma UpdateAts_ok:
  assumes "healthy s"
  shows "\<exists>m' s'. UpdateAts env (Some m, s) = Ok (Some m', s') \<and> healthy s' \<and> content s' = content s"
  using CacheSet_files [of m s] assms by (auto simp: UpdateAts_def split: prod.split)

lemma write_lines_ok:
  assumes "healthy s" "content s p = Some d"
  shows "healthy (write_lines F p lines s)
    \<and> content (write_lines F p lines s) = (content s)(p \<mapsto> d @ text_of lines)"
  using assms
proof (induction lines arbitrary: s d)
  case Nil
  then show ?case by (simp add: write_lines_def text_of_def fun_upd_idem)
next
  case (Cons line lines)
  obtain s' where s': "WriteString F p (line @ [newline]) s = (None, s')" "healthy s'"
    "content s' = (content s)(p \<mapsto> d @ line @ [newline])"
    using append_ok [OF Cons.prems] by blast
  with Cons.IH [of s' "d @ line @ [newline]"] show ?case
    by (simp add: write_lines_def text_of_def fun_eq_iff)
qed

lemma Add_effect:
  assumes "healthy s" "policy_rules lib ''rules'' obj = Some rules"
  shows "\<exists>m' s'. AtsCacheHandler_Add lib F env p obj (Some m, s) = Ok (Some m', s') \<and> healthy s'
    \<and> content s' = (content s)(p \<mapsto> (case content s p of None \<Rightarrow> [] | Some d \<Rightarrow> d)
        @ text_of (map cache_line (cache_rules lib rules)))"
proof -
  let ?d = "case content s p of None \<Rightarrow> [] | Some d \<Rightarrow> d"
  obtain u where u: "as_unstructured obj = Some u" "NestedSlice lib (Object u) [''spec'', ''rules''] = Found rules"
    using assms(2) by (auto simp: policy_rules_Some)
  obtain s1 where s1: "OpenAppend F p s = (None, s1)" "healthy s1" "content s1 = (content s)(p \<mapsto> ?d)"
    using open_ok [OF assms(1)] by blast
  let ?s = "write_lines F p (map cache_line (cache_rules lib rules)) s1"
  have "healthy ?s \<and> content ?s = (content s1)(p \<mapsto> ?d @ text_of (map cache_line (cache_rules lib rules)))"
    by (rule write_lines_ok [OF s1(2)]) (simp add: s1(3))
  with UpdateAts_ok [of ?s m] s1 u show ?thesis
    by (auto simp: AtsCacheHandler_Add_def cache_rules_def)
qed

lemma Update_effect:
  assumes "healthy s" "policy_rules lib ''rules'' newObj = Some rules" "content s p = Some d"
  shows "\<exists>m' s'. AtsCacheHandler_Update lib F env p oldObj newObj (Some m, s) = Ok (Some m', s') \<and> healthy s'
    \<and> content s' = (content s)(p \<mapsto> join_with newline (fold update_rule (cache_rules lib rules) (split_on newline d)))"
proof -
  let ?t = "join_with newline (fold update_rule (cache_rules lib rules) (split_on newline d))"
  obtain u where u: "as_unstructured newObj = Some u" "NestedSlice lib (Object u) [''spec'', ''rules''] = Found rules"
    using assms(2) by (auto simp: policy_rules_Some)
  obtain s1 where s1: "ReadFile F p s = (Inr d, s1)" "healthy s1" "content s1 = content s"
    using read_ok [OF assms(1), of p] assms(3) by auto
  obtain s2 where s2: "WriteFile F p ?t s1 = (None, s2)" "healthy s2" "content s2 = (content s1)(p \<mapsto> ?t)"
    using write_ok [OF s1(2)] by blast
  with UpdateAts_ok [OF s2(2), of m] s1 u show ?thesis
    by (auto simp: AtsCacheHandler_Update_def cache_rules_def Let_def)
qed

lemma Delete_effect:
  assumes "healthy s" "policy_rules lib ''rules'' obj = Some rules" "content s p = Some d"
  shows "\<exists>m' s'. AtsCacheHandler_Delete ord lib F env p obj (Some m, s) = Ok (Some m', s') \<and> healthy s'
    \<and> content s' = (content s)(p \<mapsto> join_with newline (filter (\<lambda>line. \<not> list_ex (\<lambda>(t, q).
        contains line (cache_key t q)) (ord (patternsToDelete (delete_rules lib rules)))) (split_on newline d)))"
    (is "\<exists>m' s'. _ \<and> _ \<and> content s' = (content s)(p \<mapsto> ?t)")
proof -
  obtain u where u: "as_unstructured obj = Some u" "NestedSlice lib (Object u) [''spec'', ''rules''] = Found rules"
    using assms(2) by (auto simp: policy_rules_Some)
  obtain s1 where s1: "ReadFile F p s = (Inr d, s1)" "healthy s1" "content s1 = content s"
    using read_ok [OF assms(1), of p] assms(3) by auto
  obtain s2 where s2: "WriteFile F p ?t s1 = (None, s2)" "healthy s2" "content s2 = (content s1)(p \<mapsto> ?t)"
    using write_ok [OF s1(2)] by blast
  with UpdateAts_ok [OF s2(2), of m] s1 u show ?thesis
    by (auto simp: AtsCacheHandler_Delete_def delete_rules_def Let_def)
qed

end

end
