(* ===== verification/Sni_Handler.thy ===== *)
theory Sni_Handler
  imports Cache_Handler
begin

text \<open>
  \<open>watcher/handlerSni.go\<close>: the entries of an Atssnipolicy are entries of \<open>sni.yaml\<close>, one per
  host name. The package \<open>yaml\<close> is a parameter; the nodes the handler builds for it are modelled.
  The mutex serialises the handler's calls, which the model has one after the other anyway.
\<close>

section \<open>Entries and nodes\<close>

type_synonym SniEntry = "(string, json) gomap"

datatype node_kind = DocumentNode | SequenceNode | MappingNode | ScalarNode | AliasNode

datatype yaml_node = YamlNode (Kind: node_kind) (Tag: string) (NodeValue: string) (Content: "yaml_node list")

text \<open>
  \<open>Marshal_sni\<close> is \<open>yaml.Marshal\<close> on the file structure, given the nodes that \<open>MarshalYAML\<close>
  returns for its entries; \<open>Unmarshal_sni\<close> gives the entries read, which may be some even with an
  error. \<open>Sprintf_v\<close> is the verb \<open>%v\<close>.
\<close>

record yaml_lib =
  Marshal_value :: "json \<Rightarrow> string + string"
  Unmarshal_node :: "string \<Rightarrow> string + yaml_node"
  Sprintf_v :: "json \<Rightarrow> string"
  Marshal_sni :: "yaml_node list \<Rightarrow> string + string"
  Unmarshal_sni :: "string \<Rightarrow> SniEntry list \<times> string option"

definition nodeFromInterface :: "yaml_lib \<Rightarrow> json \<Rightarrow> string + yaml_node" where
  "nodeFromInterface Y v =
     (case Marshal_value Y v of
        Inl err \<Rightarrow> Inl err
      | Inr b \<Rightarrow>
          (case Unmarshal_node Y b of
             Inl err \<Rightarrow> Inl err
           | Inr node \<Rightarrow>
               if Kind node = DocumentNode \<and> length (Content node) > 0 then Inr (Content node ! 0)
               else Inr node))"

definition str_node :: "string \<Rightarrow> yaml_node" where
  "str_node s = YamlNode ScalarNode ''!!str'' s []"

text \<open>A key and its value, which falls back to a string when the library fails.\<close>

definition entry_nodes :: "yaml_lib \<Rightarrow> string \<Rightarrow> json \<Rightarrow> yaml_node list" where
  "entry_nodes Y k v =
     [str_node k,
      case nodeFromInterface Y v of Inl err \<Rightarrow> str_node (Sprintf_v Y v) | Inr node \<Rightarrow> node]"

definition other_keys :: "(SniEntry \<Rightarrow> SniEntry) \<Rightarrow> SniEntry \<Rightarrow> string list" where
  "other_keys ord s = sort (filter (\<lambda>k. k \<noteq> ''fqdn'') (map fst (ord s)))"

definition MarshalYAML :: "(SniEntry \<Rightarrow> SniEntry) \<Rightarrow> yaml_lib \<Rightarrow> SniEntry \<Rightarrow> yaml_node" where
  "MarshalYAML ord Y s = YamlNode MappingNode ''!!map'' []
     ((case gm_get s ''fqdn'' of None \<Rightarrow> [] | Some fqdn \<Rightarrow> entry_nodes Y ''fqdn'' fqdn)
      @ concat (map (\<lambda>k. entry_nodes Y k (the (gm_get s k))) (other_keys ord s)))"

section \<open>The file\<close>

definition loadSniFile :: "yaml_lib \<Rightarrow> 's file_api \<Rightarrow> string \<Rightarrow> 's \<Rightarrow> SniEntry list \<times> 's" where
  "loadSniFile Y F path s =
     (case ReadFile F path s of
        (Inl NotExist, s') \<Rightarrow> ([], s')
      | (Inl (ReadError err), s') \<Rightarrow> ([], s')
      | (Inr data, s') \<Rightarrow> (fst (Unmarshal_sni Y data), s'))"

definition sni_tmp :: "string \<Rightarrow> string" where
  "sni_tmp path = path @ ''.tmp''"

definition writeSniFile ::
    "(SniEntry \<Rightarrow> SniEntry) \<Rightarrow> yaml_lib \<Rightarrow> 's file_api \<Rightarrow> string \<Rightarrow> SniEntry list \<Rightarrow> 's \<Rightarrow> 's" where
  "writeSniFile ord Y F path sni s =
     (if length sni = 0 then snd (WriteFile F path [] s)
      else (case Marshal_sni Y (map (MarshalYAML ord Y) sni) of
              Inl err \<Rightarrow> s
            | Inr data \<Rightarrow>
                (case WriteFile F (sni_tmp path) data s of
                   (Some err, s') \<Rightarrow> s'
                 | (None, s') \<Rightarrow> snd (Rename F (sni_tmp path) path s'))))"

definition reloadSni :: "'s ats_env \<Rightarrow> 's ats_state prog" where
  "reloadSni env = (\<lambda>(manager, s).
     case manager of
       None \<Rightarrow> Ok (manager, s)
     | Some m \<Rightarrow> (case SniSet env (m, s) of (_, (m', s')) \<Rightarrow> Ok (Some m', s')))"

section \<open>The handler\<close>

text \<open>\<open>existing["fqdn"].(string)\<close>, with the empty string when the assertion fails.\<close>

definition existing_fqdn :: "SniEntry \<Rightarrow> string" where
  "existing_fqdn e = (case as_string (gm_get e ''fqdn'') of None \<Rightarrow> [] | Some fqdn \<Rightarrow> fqdn)"

text \<open>The entry of the policy that a list element is: a map whose fqdn is a non-empty string.\<close>

definition sni_entry :: "json \<Rightarrow> (string \<times> SniEntry) option" where
  "sni_entry entry =
     (case as_map entry of
        None \<Rightarrow> None
      | Some m \<Rightarrow>
          (case as_string (gm_get m ''fqdn'') of
             None \<Rightarrow> None
           | Some fqdn \<Rightarrow> if fqdn = [] then None else Some (fqdn, m)))"

text \<open>
  \<open>reflect.DeepEqual\<close> on an entry of the file and an entry of the policy: the types differ,
  \<open>SniEntry\<close> and \<open>map[string]interface{}\<close>, so it is always false.
\<close>

definition deep_equal_entry :: "SniEntry \<Rightarrow> (string, json) gomap \<Rightarrow> bool" where
  "deep_equal_entry existing entryMap = False"

text \<open>The first entry of the host is replaced; when there is none the new entry is appended.\<close>

fun set_entry :: "string \<Rightarrow> SniEntry \<Rightarrow> SniEntry list \<Rightarrow> SniEntry list" where
  "set_entry fqdn entryMap [] = [entryMap]"
| "set_entry fqdn entryMap (existing # sni) =
     (if existing_fqdn existing = fqdn
      then (if \<not> deep_equal_entry existing entryMap then entryMap else existing) # sni
      else existing # set_entry fqdn entryMap sni)"

definition sni_add :: "(string \<times> SniEntry) list \<Rightarrow> SniEntry list \<Rightarrow> SniEntry list" where
  "sni_add entries sni = fold (\<lambda>(fqdn, entryMap). set_entry fqdn entryMap) entries sni"

definition AtsSniHandler_Add :: "(SniEntry \<Rightarrow> SniEntry) \<Rightarrow> yaml_lib \<Rightarrow> unstructured_lib \<Rightarrow> 's file_api
    \<Rightarrow> 's ats_env \<Rightarrow> string \<Rightarrow> k8s_obj \<Rightarrow> 's ats_state prog" where
  "AtsSniHandler_Add eord Y lib F env path obj = (\<lambda>(manager, s).
     case as_unstructured obj of
       None \<Rightarrow> Panic (manager, s)
     | Some u \<Rightarrow>
         (case NestedSlice lib (Object u) [''spec'', ''sni''] of
            Found newSni \<Rightarrow>
              (case loadSniFile Y F path s of
                 (sni, s') \<Rightarrow> reloadSni env (manager,
                   writeSniFile eord Y F path (sni_add (List.map_filter sni_entry newSni) sni) s'))
          | NotFound \<Rightarrow> Ok (manager, s)
          | NestedError err \<Rightarrow> Ok (manager, s)))"

text \<open>
  \<open>Update\<close> collects the new entries in a map, replaces the entries of the file that have one, and
  appends the rest in the order \<open>ord\<close> in which it ranges over the map.
\<close>

definition entry_map :: "(string \<times> SniEntry) list \<Rightarrow> (string, SniEntry) gomap" where
  "entry_map entries = fold (\<lambda>(fqdn, m). gm_set fqdn m) entries []"

type_synonym sni_order = "(string \<times> SniEntry) list \<Rightarrow> (string \<times> SniEntry) list"

definition sni_update :: "sni_order \<Rightarrow> (string, SniEntry) gomap \<Rightarrow> SniEntry list \<Rightarrow> SniEntry list" where
  "sni_update ord newMap sni =
     (let kept = map (\<lambda>existing. case gm_get newMap (existing_fqdn existing) of
                   Some newEntry \<Rightarrow> newEntry | None \<Rightarrow> existing) sni;
          seen = filter (gm_has newMap) (map existing_fqdn sni)
      in kept @ map snd (filter (\<lambda>(fqdn, newEntry). fqdn \<notin> set seen) (ord newMap)))"

definition AtsSniHandler_Update :: "sni_order \<Rightarrow> (SniEntry \<Rightarrow> SniEntry) \<Rightarrow> yaml_lib \<Rightarrow> unstructured_lib
    \<Rightarrow> 's file_api \<Rightarrow> 's ats_env \<Rightarrow> string \<Rightarrow> k8s_obj \<Rightarrow> k8s_obj \<Rightarrow> 's ats_state prog" where
  "AtsSniHandler_Update ord eord Y lib F env path oldObj newObj = (\<lambda>(manager, s).
     case as_unstructured newObj of
       None \<Rightarrow> Panic (manager, s)
     | Some newU \<Rightarrow>
         (case NestedSlice lib (Object newU) [''spec'', ''sni''] of
            Found newSni \<Rightarrow>
              (case loadSniFile Y F path s of
                 (sni, s') \<Rightarrow> reloadSni env (manager, writeSniFile eord Y F path
                   (sni_update ord (entry_map (List.map_filter sni_entry newSni)) sni) s'))
          | NotFound \<Rightarrow> Ok (manager, s)
          | NestedError err \<Rightarrow> Ok (manager, s)))"

definition sni_delete :: "string list \<Rightarrow> SniEntry list \<Rightarrow> SniEntry list" where
  "sni_delete fqdns sni = filter (\<lambda>existing. existing_fqdn existing \<notin> set fqdns) sni"

definition AtsSniHandler_Delete :: "(SniEntry \<Rightarrow> SniEntry) \<Rightarrow> yaml_lib \<Rightarrow> unstructured_lib \<Rightarrow> 's file_api
    \<Rightarrow> 's ats_env \<Rightarrow> string \<Rightarrow> k8s_obj \<Rightarrow> 's ats_state prog" where
  "AtsSniHandler_Delete eord Y lib F env path obj = (\<lambda>(manager, s).
     case as_unstructured obj of
       None \<Rightarrow> Panic (manager, s)
     | Some u \<Rightarrow>
         (case loadSniFile Y F path s of
            (sni, s') \<Rightarrow>
              (case NestedSlice lib (Object u) [''spec'', ''sni''] of
                 Found sniList \<Rightarrow> reloadSni env (manager, writeSniFile eord Y F path
                   (sni_delete (map fst (List.map_filter sni_entry sniList)) sni) s')
               | NotFound \<Rightarrow> Ok (manager, s')
               | NestedError err \<Rightarrow> Ok (manager, s'))))"

definition AtsSniHandler :: "sni_order \<Rightarrow> (SniEntry \<Rightarrow> SniEntry) \<Rightarrow> yaml_lib \<Rightarrow> unstructured_lib
    \<Rightarrow> 's file_api \<Rightarrow> 's ats_env \<Rightarrow> string \<Rightarrow> (k8s_obj, 's ats_state) EventHandler" where
  "AtsSniHandler ord eord Y lib F env path = \<lparr>Add = AtsSniHandler_Add eord Y lib F env path,
     Update = AtsSniHandler_Update ord eord Y lib F env path,
     Delete = AtsSniHandler_Delete eord Y lib F env path, GetResourceName = ''atssnipolicy''\<rparr>"

text \<open>The handler keeps the contract too.\<close>

lemma reloadSni_managed:
  assumes "class_of m = c"
  shows "\<exists>s'. reloadSni env (Some m, x) = Ok s' \<and> managed c s'"
proof -
  obtain r m' x' where "SniSet env (m, x) = (r, (m', x'))" by (metis prod.exhaust)
  with SniSet_class [of env "(m, x)"] assms show ?thesis by (auto simp: reloadSni_def)
qed

lemma AtsSniHandler_Add_managed:
  assumes "policy_valid obj" "managed c s"
  shows "\<exists>s'. AtsSniHandler_Add eord Y lib F env path obj s = Ok s' \<and> managed c s'"
  using assms
  by (auto simp: policy_valid_def AtsSniHandler_Add_def intro: reloadSni_managed
      simp del: split_paired_Ex split: nested.split prod.split elim!: managedE)

lemma AtsSniHandler_Update_managed:
  assumes "policy_valid newObj" "managed c s"
  shows "\<exists>s'. AtsSniHandler_Update ord eord Y lib F env path oldObj newObj s = Ok s' \<and> managed c s'"
  using assms
  by (auto simp: policy_valid_def AtsSniHandler_Update_def intro: reloadSni_managed
      simp del: split_paired_Ex split: nested.split prod.split elim!: managedE)

lemma AtsSniHandler_Delete_managed:
  assumes "policy_valid obj" "managed c s"
  shows "\<exists>s'. AtsSniHandler_Delete eord Y lib F env path obj s = Ok s' \<and> managed c s'"
  using assms
  by (auto simp: policy_valid_def AtsSniHandler_Delete_def intro: reloadSni_managed
      simp del: split_paired_Ex split: nested.split prod.split elim!: managedE)

interpretation sni: event_handler "AtsSniHandler ord eord Y lib F env path" policy_valid "managed c"
  for ord eord Y lib F env path c
  by unfold_locales (simp_all add: AtsSniHandler_def AtsSniHandler_Add_managed
      AtsSniHandler_Update_managed AtsSniHandler_Delete_managed del: split_paired_Ex)

section \<open>Effect on the list of entries\<close>

text \<open>The entry of a host: the first one in the file.\<close>

definition sni_get :: "SniEntry list \<Rightarrow> string \<Rightarrow> SniEntry option" where
  "sni_get sni = map_of (map (\<lambda>e. (existing_fqdn e, e)) sni)"

lemma sni_get_simps [simp]:
  "sni_get [] f = None"
  "sni_get (e # sni) f = (if existing_fqdn e = f then Some e else sni_get sni f)"
  by (auto simp: sni_get_def)

lemma sni_get_None: "sni_get sni f = None \<longleftrightarrow> f \<notin> set (map existing_fqdn sni)"
  by (induction sni) auto

lemma sni_get_append: "sni_get (xs @ ys) f = (case sni_get xs f of None \<Rightarrow> sni_get ys f | Some e \<Rightarrow> Some e)"
  by (induction xs) auto

definition own_entries :: "(string \<times> SniEntry) list \<Rightarrow> bool" where
  "own_entries entries \<longleftrightarrow> (\<forall>(f, e) \<in> set entries. existing_fqdn e = f \<and> f \<noteq> [])"

lemma sni_entry_own: "own_entries (List.map_filter sni_entry xs)"
  by (auto simp: own_entries_def List.map_filter_def sni_entry_def existing_fqdn_def
      split: option.splits if_splits)

lemma sni_get_set_entry:
  assumes "existing_fqdn e = f"
  shows "sni_get (set_entry f e sni) = (sni_get sni)(f \<mapsto> e)"
proof
  show "sni_get (set_entry f e sni) g = ((sni_get sni)(f \<mapsto> e)) g" for g
    using assms by (induction sni) (auto simp: deep_equal_entry_def)
qed

lemma fqdns_set_entry:
  assumes "existing_fqdn e = f"
  shows "map existing_fqdn (set_entry f e sni) =
    map existing_fqdn sni @ (if f \<in> set (map existing_fqdn sni) then [] else [f])"
  using assms by (induction sni) (auto simp: deep_equal_entry_def)

lemma sni_add_get:
  assumes "own_entries entries"
  shows "sni_get (sni_add entries sni) = sni_get sni ++ map_of (rev entries)"
  using assms unfolding sni_add_def own_entries_def
  by (induction entries arbitrary: sni) (auto simp: sni_get_set_entry)

lemma sni_add_distinct:
  assumes "own_entries entries" "distinct (map existing_fqdn sni)"
  shows "distinct (map existing_fqdn (sni_add entries sni))"
  using assms unfolding sni_add_def own_entries_def
proof (induction entries arbitrary: sni)
  case (Cons fe entries)
  obtain f e where "fe = (f, e)" by (cases fe)
  with Cons show ?case by (simp add: fqdns_set_entry)
qed simp

lemma sni_add_prefix:
  assumes "own_entries entries"
  shows "prefix (map existing_fqdn sni) (map existing_fqdn (sni_add entries sni))"
  using assms unfolding sni_add_def own_entries_def
proof (induction entries arbitrary: sni)
  case (Cons fe entries)
  obtain f e where fe: "fe = (f, e)" by (cases fe)
  with Cons.prems have "existing_fqdn e = f" by simp
  from fqdns_set_entry [OF this, of sni]
  have "prefix (map existing_fqdn sni) (map existing_fqdn (set_entry f e sni))" by (metis prefixI)
  also have "prefix (map existing_fqdn (set_entry f e sni))
      (map existing_fqdn (fold (\<lambda>(f, e). set_entry f e) entries (set_entry f e sni)))"
    using Cons by simp
  finally show ?case by (simp add: fe)
qed simp

lemma entry_map_get: "gm_get (entry_map entries) = map_of (rev entries)"
proof -
  have "gm_get (fold (\<lambda>(f, m). gm_set f m) entries acc) = gm_get acc ++ map_of (rev entries)" for acc
    by (induction entries arbitrary: acc) (auto simp: gm_get_set)
  then show ?thesis by (simp add: entry_map_def)
qed

lemma entry_map_wf: "gm_wf (entry_map entries)"
proof -
  have "gm_wf acc \<Longrightarrow> gm_wf (fold (\<lambda>(f, m). gm_set f m) entries acc)" for acc
    by (induction entries arbitrary: acc) auto
  then show ?thesis by (simp add: entry_map_def)
qed

lemma entry_map_own:
  assumes "own_entries entries" "gm_get (entry_map entries) f = Some e"
  shows "existing_fqdn e = f"
  using assms by (auto simp: entry_map_get own_entries_def dest!: map_of_SomeD)

lemma sni_get_replaced:
  assumes "\<And>f e. gm_get M f = Some e \<Longrightarrow> existing_fqdn e = f"
  shows "sni_get (map (\<lambda>e. case gm_get M (existing_fqdn e) of Some e' \<Rightarrow> e' | None \<Rightarrow> e) sni) f
    = (case sni_get sni f of None \<Rightarrow> None | Some e \<Rightarrow> (case gm_get M f of Some e' \<Rightarrow> Some e' | None \<Rightarrow> Some e))"
  using assms by (induction sni) (auto split: option.split)

lemma sni_get_snd:
  assumes "\<And>f e. (f, e) \<in> set kvs \<Longrightarrow> existing_fqdn e = f"
  shows "sni_get (map snd kvs) = map_of kvs"
proof
  show "sni_get (map snd kvs) f = map_of kvs f" for f
    using assms by (induction kvs) auto
qed

lemma map_of_filter_keys: "map_of (filter (\<lambda>(k, v). P k) kvs) k = (if P k then map_of kvs k else None)"
  by (induction kvs) auto

lemma sni_update_get:
  assumes "own_entries entries" "range_order ord"
  shows "sni_get (sni_update ord (entry_map entries) sni) = sni_get sni ++ map_of (rev entries)"
proof
  fix f
  let ?M = "entry_map entries"
  have ord: "map_of (ord ?M) = gm_get ?M" by (rule range_order_map_of [OF assms(2) entry_map_wf])
  have own: "existing_fqdn e = f" if "(f, e) \<in> set (ord ?M)" for f e
    using that range_order_set [OF assms(2)] entry_map_wf [of entries]
    by (intro entry_map_own [OF assms(1)]) (simp add: gm_wf_def)
  have rest: "sni_get (map snd (filter (\<lambda>(f, e). f \<notin> set seen) (ord ?M))) f
      = (if f \<notin> set seen then gm_get ?M f else None)" for seen
  proof -
    have "sni_get (map snd (filter (\<lambda>(f, e). f \<notin> set seen) (ord ?M)))
        = map_of (filter (\<lambda>(f, e). f \<notin> set seen) (ord ?M))"
      by (rule sni_get_snd) (auto dest: own)
    then show ?thesis by (simp add: map_of_filter_keys ord)
  qed
  have kept: "sni_get (map (\<lambda>e. case gm_get ?M (existing_fqdn e) of Some e' \<Rightarrow> e' | None \<Rightarrow> e) sni) f
    = (case sni_get sni f of None \<Rightarrow> None | Some e \<Rightarrow> (case gm_get ?M f of Some e' \<Rightarrow> Some e' | None \<Rightarrow> Some e))"
    by (rule sni_get_replaced) (rule entry_map_own [OF assms(1)])
  have seen: "f \<in> set (filter (gm_has ?M) (map existing_fqdn sni)) \<longleftrightarrow> gm_get ?M f \<noteq> None \<and> sni_get sni f \<noteq> None"
    by (auto simp: gm_has_def sni_get_None)
  show "sni_get (sni_update ord ?M sni) f = (sni_get sni ++ map_of (rev entries)) f"
    unfolding sni_update_def Let_def sni_get_append kept rest seen entry_map_get [symmetric]
    by (cases "sni_get sni f"; cases "gm_get ?M f") (simp_all add: map_add_def)
qed

lemma sni_delete_get: "sni_get (sni_delete fqdns sni) f = (if f \<in> set fqdns then None else sni_get sni f)"
  by (induction sni) (auto simp: sni_delete_def)

end
