(* ===== verification/Cache_Properties.thy ===== *)
theory Cache_Properties
  imports Cache_Handler
begin

text \<open>
  The properties of the caching policy handler: the file as a list of lines, how Add, Update and
  Delete act on it, when they undo each other, and where the matching of lines goes wrong.
\<close>

section \<open>Files as lines\<close>

definition rule_key :: "string \<times> string \<times> string \<Rightarrow> string" where
  "rule_key = (\<lambda>(typeval, pattern, ttl). cache_key typeval pattern)"

definition one_line :: "string \<Rightarrow> bool" where
  "one_line line \<longleftrightarrow> newline \<notin> set line"

lemma split_text_of: "list_all one_line lines \<Longrightarrow> split_on newline (text_of lines) = lines @ [[]]"
  by (induction lines) (auto simp: text_of_def one_line_def split_on_append)

lemma join_lines: "join_with newline (lines @ [[]]) = text_of lines"
proof (induction lines)
  case Nil
  then show ?case by (simp add: text_of_def)
next
  case (Cons line lines)
  then show ?case by (cases lines) (auto simp: text_of_def)
qed

lemma text_of_append: "text_of (xs @ ys) = text_of xs @ text_of ys"
  by (simp add: text_of_def)

lemma line_contains_key: "contains (cache_line r) (rule_key r)"
  by (cases r) (simp add: cache_line_def rule_key_def contains_prefix)

lemma replace_line_first:
  "\<forall>x \<in> set xs. \<not> contains x key \<Longrightarrow> contains y key \<Longrightarrow>
   replace_line key new (xs @ y # ys) = xs @ new # ys"
  by (induction xs) auto

lemma replace_line_length: "length (replace_line key new lines) = length lines"
  by (induction lines) auto

lemma replace_line_other:
  "i < length lines \<Longrightarrow> \<not> contains (lines ! i) key \<Longrightarrow> replace_line key new lines ! i = lines ! i"
  by (induction lines arbitrary: i) (auto simp: nth_Cons split: nat.splits)

lemma fold_update_length: "length (fold update_rule rs lines) = length lines"
  by (induction rs arbitrary: lines) (auto simp: update_rule_def replace_line_length split: prod.split)

text \<open>The keys of a list of rules identify their lines among each other.\<close>

definition separate :: "(string \<times> string \<times> string) list \<Rightarrow> (string \<times> string \<times> string) list \<Rightarrow> bool" where
  "separate rs qs \<longleftrightarrow> (\<forall>r \<in> set rs. \<forall>q \<in> set qs.
     rule_key r \<noteq> rule_key q \<longrightarrow> \<not> contains (cache_line r) (rule_key q))"

lemma update_rule_line: "update_rule r = replace_line (rule_key r) (cache_line r)"
  by (simp add: update_rule_def rule_key_def case_prod_beta)

lemma fold_update_rules:
  assumes "map rule_key new = map rule_key old" "distinct (map rule_key old)"
    and "separate new old" "\<forall>line \<in> set lines. \<forall>r \<in> set old. \<not> contains line (rule_key r)"
  shows "fold update_rule new (lines @ map cache_line old @ rest) = lines @ map cache_line new @ rest"
  using assms
proof (induction old arbitrary: new lines)
  case Nil
  then show ?case by simp
next
  case (Cons r old)
  obtain r' new' where new: "new = r' # new'" "rule_key r' = rule_key r" "map rule_key new' = map rule_key old"
    using Cons.prems(1) by (cases new) auto
  have "update_rule r' (lines @ map cache_line (r # old) @ rest) =
      lines @ cache_line r' # map cache_line old @ rest"
    using replace_line_first [of lines "rule_key r" "cache_line r"] Cons.prems(4) line_contains_key
    by (simp add: update_rule_line new(2))
  moreover have "\<forall>line \<in> set (lines @ [cache_line r']). \<forall>r \<in> set old. \<not> contains line (rule_key r)"
  proof -
    have "\<not> contains (cache_line r') (rule_key q)" if "q \<in> set old" for q
    proof -
      have "rule_key r' \<noteq> rule_key q" using Cons.prems(2) that new(2) by auto
      with Cons.prems(3) that new(1) show ?thesis by (auto simp: separate_def)
    qed
    with Cons.prems(4) show ?thesis by auto
  qed
  moreover have "separate new' old" using Cons.prems(3) new(1) by (auto simp: separate_def)
  ultimately show ?case
    using Cons.IH [OF new(3), of "lines @ [cache_line r']"] Cons.prems(2) by (simp add: new(1))
qed

lemma replace_line_set: "set (replace_line key new lines) \<subseteq> insert new (set lines)"
  by (induction lines) auto

lemma fold_update_set: "set (fold update_rule rs lines) \<subseteq> set lines \<union> cache_line ` set rs"
proof (induction rs arbitrary: lines)
  case (Cons r rs)
  have "set (update_rule r lines) \<subseteq> insert (cache_line r) (set lines)"
    unfolding update_rule_line by (rule replace_line_set)
  with Cons.IH [of "update_rule r lines"] show ?case by auto
qed simp

section \<open>Deleting\<close>

lemma patternsToDelete_get:
  "gm_get (patternsToDelete tps) = map_of (rev tps)"
proof -
  have "gm_get (fold (\<lambda>(t, q). gm_set t q) tps m) = gm_get m ++ map_of (rev tps)" for m
    by (induction tps arbitrary: m) (auto simp: gm_get_set)
  then show ?thesis by (simp add: patternsToDelete_def)
qed

lemma patternsToDelete_wf: "gm_wf (patternsToDelete tps)"
proof -
  have "gm_wf m \<Longrightarrow> gm_wf (fold (\<lambda>(t, q). gm_set t q) tps m)" for m
    by (induction tps arbitrary: m) auto
  then show ?thesis by (simp add: patternsToDelete_def)
qed

text \<open>Which lines go: those with the key of a rule that is the last one of its type.\<close>

definition condemned :: "(string \<times> string) list \<Rightarrow> string \<Rightarrow> bool" where
  "condemned tps line \<longleftrightarrow> (\<exists>t q. map_of (rev tps) t = Some q \<and> contains line (cache_key t q))"

lemma condemned_iff:
  assumes "range_order ord"
  shows "list_ex (\<lambda>(t, q). contains line (cache_key t q)) (ord (patternsToDelete tps)) \<longleftrightarrow> condemned tps line"
proof -
  have "(t, q) \<in> set (patternsToDelete tps) \<longleftrightarrow> map_of (rev tps) t = Some q" for t q
    using patternsToDelete_wf unfolding gm_wf_def patternsToDelete_get [symmetric]
    by (rule map_of_eq_Some_iff [symmetric])
  then show ?thesis
    unfolding list_ex_iff range_order_set [OF assms] condemned_def by fast
qed

lemma condemned_distinct:
  "distinct (map fst tps) \<Longrightarrow> condemned tps line \<longleftrightarrow> (\<exists>(t, q) \<in> set tps. contains line (cache_key t q))"
  unfolding condemned_def by (auto simp: rev_map [symmetric] map_of_eq_Some_iff) 

lemma not_condemned_Nil [simp]: "\<not> condemned tps []"
  by (simp add: condemned_def cache_key_def)

lemma cache_rule_delete: "cache_rule lib r = Some (t, q, ttl) \<Longrightarrow> delete_rule lib r = Some (t, q)"
  by (auto simp: cache_rule_def delete_rule_def split: option.splits if_splits)

lemma cache_rules_delete:
  assumes "(t, q, ttl) \<in> set (cache_rules lib rules)"
  shows "(t, q) \<in> set (delete_rules lib rules)"
  using assms unfolding cache_rules_def delete_rules_def
  by (induction rules) (auto simp: List.map_filter_simps cache_rule_delete split: option.splits)

section \<open>Example policies\<close>

text \<open>A library whose lookups read the object directly.\<close>

fun json_at :: "(string, json) gomap \<Rightarrow> string list \<Rightarrow> json option" where
  "json_at m [] = None"
| "json_at m [k] = gm_get m k"
| "json_at m (k # ks) = (case gm_get m k of Some (JMap m') \<Rightarrow> json_at m' ks | _ \<Rightarrow> None)"

definition plain_lib :: unstructured_lib where
  "plain_lib = \<lparr>
     NestedSlice = (\<lambda>m ks. case json_at m ks of
       None \<Rightarrow> NotFound | Some (JSlice xs) \<Rightarrow> Found xs | Some _ \<Rightarrow> NestedError ''not a slice''),
     NestedMap = (\<lambda>m ks. case json_at m ks of
       None \<Rightarrow> NotFound | Some (JMap m') \<Rightarrow> Found m' | Some _ \<Rightarrow> NestedError ''not a map'')\<rparr>"

definition ex_rule :: "string \<Rightarrow> string \<Rightarrow> string \<Rightarrow> json" where
  "ex_rule t q ttl = JMap [(''primarySpecifier'', JMap [(''type'', JString t), (''pattern'', JString q)]),
     (''action'', JString ''cache''), (''ttl'', JString ttl)]"

definition ex_policy :: "json list \<Rightarrow> k8s_obj" where
  "ex_policy rules = UnstructuredObj \<lparr>Name = ''p'', Namespace = ''ns'', ResourceVersion = ''1'',
     Annotations = [], Object = [(''spec'', JMap [(''rules'', JSlice rules)])]\<rparr>"

definition ex_disk :: "string list \<Rightarrow> mem_disk" where
  "ex_disk lines = disk_set ''c'' (text_of lines) mem_disk_empty"

lemma ex_disk_facts [simp]:
  "mem_healthy (ex_disk lines)" "mem_content (ex_disk lines) ''c'' = Some (text_of lines)"
  by (simp_all add: ex_disk_def) (simp add: mem_healthy_def mem_disk_empty_def)

definition ex_manager :: ats_manager where
  "ex_manager = ATS \<lparr>ATSNamespace = ''default'', IngressClass = []\<rparr>"

section \<open>Properties\<close>

text \<open>
  On a healthy disk, adding a policy appends to the file exactly one line per rule that is
  complete and whose action is to cache, in the order of the rules; what was in the file stays, and
  no other file changes.
\<close>

theorem AtsCacheHandler_Add_appends:
  assumes "ats_files F content healthy env" "healthy s" "policy_rules lib ''rules'' obj = Some rules"
    and "content s path = Some (text_of lines)"
  shows "\<exists>m' s'. AtsCacheHandler_Add lib F env path obj (Some m, s) = Ok (Some m', s') \<and> healthy s'
    \<and> content s' = (content s)(path \<mapsto> text_of (lines @ map cache_line (cache_rules lib rules)))"
  using ats_files.Add_effect [OF assms(1-3), of path m] assms(4) by (simp add: text_of_append)

theorem AtsCacheHandler_Add_appends_witness:
  "\<exists>m' s'. AtsCacheHandler_Add plain_lib mem_files mem_env ''c''
      (ex_policy [ex_rule ''dest_domain'' ''a.com'' ''1d'', JNull, ex_rule ''url_regex'' ''b'' ''2h''])
      (Some ex_manager, ex_disk [''# cache'']) = Ok (Some m', s')
    \<and> mem_content s' ''c'' = Some (text_of [''# cache'', ''dest_domain=a.com ttl-in-cache=1d'',
        ''url_regex=b ttl-in-cache=2h''])"
proof -
  let ?rules = "[ex_rule ''dest_domain'' ''a.com'' ''1d'', JNull, ex_rule ''url_regex'' ''b'' ''2h'']"
  have r: "policy_rules plain_lib ''rules'' (ex_policy ?rules) = Some ?rules" by code_simp
  have l: "map cache_line (cache_rules plain_lib ?rules) =
      [''dest_domain=a.com ttl-in-cache=1d'', ''url_regex=b ttl-in-cache=2h'']" by code_simp
  show ?thesis
    using AtsCacheHandler_Add_appends [OF mem_ats.ats_files_axioms, OF ex_disk_facts(1), OF r,
        OF ex_disk_facts(2), of ex_manager "[''# cache'']"] unfolding l by auto
qed

text \<open>
  An update keeps the number of lines of the file and leaves every line alone that contains no
  key of a rule of the new policy: it neither adds a line for a new rule nor removes the line of a
  rule that the policy no longer has.
\<close>

theorem AtsCacheHandler_Update_keeps_lines:
  assumes "ats_files F content healthy env" "healthy s" "policy_rules lib ''rules'' newObj = Some rules"
    and "content s path = Some (text_of lines)" "list_all one_line lines"
    and "list_all (\<lambda>r. one_line (cache_line r)) (cache_rules lib rules)"
  shows "\<exists>m' s' lines'. AtsCacheHandler_Update lib F env path oldObj newObj (Some m, s) = Ok (Some m', s')
    \<and> content s' = (content s)(path \<mapsto> text_of lines')
    \<and> list_all one_line lines' \<and> length lines' = length lines
    \<and> (\<forall>i < length lines. (\<forall>r \<in> set (cache_rules lib rules). \<not> contains (lines ! i) (rule_key r))
         \<longrightarrow> lines' ! i = lines ! i)"
proof -
  let ?rs = "cache_rules lib rules"
  have "\<exists>lines'. fold update_rule rs (lines @ [[]]) = lines' @ [[]] \<and> length lines' = length lines
      \<and> (\<forall>i < length lines. (\<forall>r \<in> set rs. \<not> contains (lines ! i) (rule_key r)) \<longrightarrow> lines' ! i = lines ! i)"
    for rs :: "(string \<times> string \<times> string) list" and lines
  proof (induction rs arbitrary: lines)
    case (Cons r rs)
    let ?l = "replace_line (rule_key r) (cache_line r) lines"
    have "contains [] (rule_key r) \<longleftrightarrow> False" by (cases r) (simp add: rule_key_def cache_key_def)
    then have 1: "update_rule r (lines @ [[]]) = ?l @ [[]]"
      unfolding update_rule_line by (induction lines) auto
    obtain lines' where "fold update_rule rs (?l @ [[]]) = lines' @ [[]]" "length lines' = length ?l"
      "\<forall>i < length ?l. (\<forall>r \<in> set rs. \<not> contains (?l ! i) (rule_key r)) \<longrightarrow> lines' ! i = ?l ! i"
      using Cons.IH [of ?l] by blast
    then show ?case using 1 replace_line_length replace_line_other by fastforce
  qed simp
  from this [of ?rs lines] obtain lines' where "fold update_rule ?rs (lines @ [[]]) = lines' @ [[]]"
    "length lines' = length lines"
    "\<forall>i < length lines. (\<forall>r \<in> set ?rs. \<not> contains (lines ! i) (rule_key r)) \<longrightarrow> lines' ! i = lines ! i"
    by blast
  moreover from this(1) have "list_all one_line lines'"
    using fold_update_set [of ?rs "lines @ [[]]"] assms(5,6)
    by (auto simp: list_all_iff one_line_def)
  ultimately show ?thesis
    using ats_files.Update_effect [OF assms(1-4), of oldObj m]
    unfolding split_text_of [OF assms(5)] by (metis join_lines)
qed

theorem AtsCacheHandler_Update_keeps_lines_witness:
  "\<exists>m' s' lines'. AtsCacheHandler_Update plain_lib mem_files mem_env ''c'' OtherObj
      (ex_policy [ex_rule ''url_regex'' ''b'' ''9h'', ex_rule ''url_regex'' ''new'' ''1h''])
      (Some ex_manager, ex_disk [''url_regex=b ttl-in-cache=2h'', ''# end'']) = Ok (Some m', s')
    \<and> mem_content s' ''c'' = Some (text_of lines') \<and> length lines' = 2 \<and> lines' ! 1 = ''# end''"
proof -
  let ?rules = "[ex_rule ''url_regex'' ''b'' ''9h'', ex_rule ''url_regex'' ''new'' ''1h'']"
  let ?lines = "[''url_regex=b ttl-in-cache=2h'', ''# end'']"
  have r: "policy_rules plain_lib ''rules'' (ex_policy ?rules) = Some ?rules" by code_simp
  have l: "list_all one_line ?lines" "list_all (\<lambda>r. one_line (cache_line r)) (cache_rules plain_lib ?rules)"
    by code_simp+
  have k: "\<forall>r \<in> set (cache_rules plain_lib ?rules). \<not> contains (?lines ! 1) (rule_key r)" by code_simp
  obtain m' s' lines' where *: "AtsCacheHandler_Update plain_lib mem_files mem_env ''c'' OtherObj
      (ex_policy ?rules) (Some ex_manager, ex_disk ?lines) = Ok (Some m', s')"
    "mem_content s' = (mem_content (ex_disk ?lines))(''c'' \<mapsto> text_of lines')" "length lines' = length ?lines"
    "\<forall>i < length ?lines. (\<forall>r \<in> set (cache_rules plain_lib ?rules). \<not> contains (?lines ! i) (rule_key r))
       \<longrightarrow> lines' ! i = ?lines ! i"
    using AtsCacheHandler_Update_keeps_lines [OF mem_ats.ats_files_axioms, OF ex_disk_facts(1), OF r,
        OF ex_disk_facts(2), OF l, of OtherObj ex_manager] by blast
  have "lines' ! 1 = ''# end''" using *(4) k by simp
  with *(1-3) show ?thesis by auto
qed

text \<open>
  C25. When only times to live change, updating the file that an addition of the old policy wrote
  gives the file that an addition of the new policy would have written, provided the keys of the
  rules are different and neither another rule's line nor a line before them contains one.
\<close>

theorem AtsCacheHandler_Update_coherent:
  assumes "ats_files F content healthy env" "healthy s" "policy_rules lib ''rules'' newObj = Some rules"
    and "content s path = Some (text_of (lines @ map cache_line old))"
    and "list_all one_line (lines @ map cache_line old)"
    and "map rule_key (cache_rules lib rules) = map rule_key old" "distinct (map rule_key old)"
    and "separate (cache_rules lib rules) old"
    and "\<forall>line \<in> set lines. \<forall>r \<in> set old. \<not> contains line (rule_key r)"
  shows "\<exists>m' s'. AtsCacheHandler_Update lib F env path oldObj newObj (Some m, s) = Ok (Some m', s')
    \<and> content s' = (content s)(path \<mapsto> text_of (lines @ map cache_line (cache_rules lib rules)))"
proof -
  have "fold update_rule (cache_rules lib rules) (split_on newline (text_of (lines @ map cache_line old)))
      = lines @ map cache_line (cache_rules lib rules) @ [[]]"
    unfolding split_text_of [OF assms(5)] using fold_update_rules [OF assms(6-9), of "[[]]"] by simp
  with ats_files.Update_effect [OF assms(1-4), of oldObj m] join_lines show ?thesis
    by (metis append_assoc)
qed

theorem AtsCacheHandler_Update_coherent_witness:
  "\<exists>m' s'. AtsCacheHandler_Update plain_lib mem_files mem_env ''c'' OtherObj
      (ex_policy [ex_rule ''url_regex'' ''a'' ''9h'', ex_rule ''url_regex'' ''b'' ''1h''])
      (Some ex_manager, ex_disk [''# x'', ''url_regex=a ttl-in-cache=2h'', ''url_regex=b ttl-in-cache=3h''])
        = Ok (Some m', s')
    \<and> mem_content s' ''c'' = Some (text_of
        [''# x'', ''url_regex=a ttl-in-cache=9h'', ''url_regex=b ttl-in-cache=1h''])"
proof -
  let ?rules = "[ex_rule ''url_regex'' ''a'' ''9h'', ex_rule ''url_regex'' ''b'' ''1h'']"
  let ?old = "[(''url_regex'', ''a'', ''2h''), (''url_regex'', ''b'', ''3h'')]"
  have r: "policy_rules plain_lib ''rules'' (ex_policy ?rules) = Some ?rules" by code_simp
  have l: "[''# x'', ''url_regex=a ttl-in-cache=2h'', ''url_regex=b ttl-in-cache=3h'']
      = [''# x''] @ map cache_line ?old" by code_simp
  have c: "mem_content (ex_disk ([''# x''] @ map cache_line ?old)) ''c'' = Some (text_of ([''# x''] @ map cache_line ?old))"
    by simp
  have h: "list_all one_line ([''# x''] @ map cache_line ?old)"
    "map rule_key (cache_rules plain_lib ?rules) = map rule_key ?old" "distinct (map rule_key ?old)"
    "separate (cache_rules plain_lib ?rules) ?old"
    "\<forall>line \<in> set [''# x'']. \<forall>r \<in> set ?old. \<not> contains line (rule_key r)" by code_simp+
  have n: "[''# x''] @ map cache_line (cache_rules plain_lib ?rules)
      = [''# x'', ''url_regex=a ttl-in-cache=9h'', ''url_regex=b ttl-in-cache=1h'']" by code_simp
  show ?thesis
    using AtsCacheHandler_Update_coherent [OF mem_ats.ats_files_axioms, OF ex_disk_facts(1), OF r, OF c, OF h,
        of OtherObj ex_manager] unfolding l [symmetric] n by auto
qed

text \<open>The lines of the rules with a type and pattern: the key is followed by the ttl.\<close>

definition rule_line :: "string \<Rightarrow> string \<Rightarrow> string \<Rightarrow> bool" where
  "rule_line t q line \<longleftrightarrow> prefix (cache_key t q @ '' ttl-in-cache='') line"

lemma rule_line_contains: "rule_line t q line \<Longrightarrow> contains line (cache_key t q)"
  by (auto simp: rule_line_def prefix_def contains_prefix)

text \<open>
  C24. A deletion removes exactly the lines of the rules of the policy, for whatever ttl, and keeps
  the unrelated lines as they are and in their order; no other file changes, and the order in which Go
  ranges over the map of patterns does not matter. Assumed: a healthy disk, no two rules of the
  policy have the same type (the map holds one pattern for each type), and no other line of the
  file contains the type and pattern of one of them, joined by an equals sign (the code removes such
  lines too).
\<close>

theorem AtsCacheHandler_Delete_correct:
  assumes "ats_files F content healthy env" "healthy s" "policy_rules lib ''rules'' obj = Some rules"
    and "content s path = Some (text_of lines)" "list_all one_line lines" "range_order ord"
    and "distinct (map fst (delete_rules lib rules))"
    and "\<forall>line \<in> set lines. \<forall>(t, q) \<in> set (delete_rules lib rules). contains line (cache_key t q) \<longrightarrow> rule_line t q line"
  shows "\<exists>m' s'. AtsCacheHandler_Delete ord lib F env path obj (Some m, s) = Ok (Some m', s') \<and> healthy s'
    \<and> content s' = (content s)(path \<mapsto>
        text_of (filter (\<lambda>line. \<forall>(t, q) \<in> set (delete_rules lib rules). \<not> rule_line t q line) lines))"
proof -
  have "filter (\<lambda>line. \<not> condemned (delete_rules lib rules) line) lines
      = filter (\<lambda>line. \<forall>(t, q) \<in> set (delete_rules lib rules). \<not> rule_line t q line) lines"
    using assms(8) rule_line_contains
    by (intro filter_cong refl) (fastforce simp: condemned_distinct [OF assms(7)])
  then show ?thesis
    using ats_files.Delete_effect [OF assms(1-4), of ord m]
    unfolding condemned_iff [OF assms(6)] split_text_of [OF assms(5)] by (simp add: join_lines)
qed

theorem AtsCacheHandler_Delete_correct_witness:
  "\<exists>m' s'. AtsCacheHandler_Delete rev plain_lib mem_files mem_env ''c''
      (ex_policy [ex_rule ''url_regex'' ''a'' ''2h'', ex_rule ''dest_ip'' ''1.1'' ''2h''])
      (Some ex_manager, ex_disk [''# x'', ''url_regex=a ttl-in-cache=2h'', ''# y'', ''dest_ip=1.1 ttl-in-cache=2h''])
        = Ok (Some m', s')
    \<and> mem_content s' ''c'' = Some (text_of [''# x'', ''# y''])"
proof -
  let ?rules = "[ex_rule ''url_regex'' ''a'' ''2h'', ex_rule ''dest_ip'' ''1.1'' ''2h'']"
  let ?lines = "[''# x'', ''url_regex=a ttl-in-cache=2h'', ''# y'', ''dest_ip=1.1 ttl-in-cache=2h'']"
  have r: "policy_rules plain_lib ''rules'' (ex_policy ?rules) = Some ?rules" by code_simp
  have l: "list_all one_line ?lines" by code_simp
  have o: "range_order (rev :: map_order)" by simp
  have n: "distinct (map fst (delete_rules plain_lib ?rules))"
    "\<forall>line \<in> set ?lines. \<forall>(t, q) \<in> set (delete_rules plain_lib ?rules). contains line (cache_key t q) \<longrightarrow> rule_line t q line"
    by code_simp+
  have f: "filter (\<lambda>line. \<forall>(t, q) \<in> set (delete_rules plain_lib ?rules). \<not> rule_line t q line) ?lines = [''# x'', ''# y'']"
    by code_simp
  show ?thesis
    using AtsCacheHandler_Delete_correct [OF mem_ats.ats_files_axioms, OF ex_disk_facts(1), OF r,
        OF ex_disk_facts(2), OF l o n, of ex_manager] unfolding f by auto
qed

text \<open>
  Deleting a policy right after adding it gives back the file as it was, when no two of its
  rules have the same type and no line of the file contains one of their keys.
\<close>

theorem AtsCacheHandler_Add_Delete:
  assumes "ats_files F content healthy env" "healthy s" "policy_rules lib ''rules'' obj = Some rules"
    and "content s path = Some (text_of lines)"
    and "list_all one_line (lines @ map cache_line (cache_rules lib rules))" "range_order ord"
    and "distinct (map fst (delete_rules lib rules))"
    and "\<forall>line \<in> set lines. \<forall>(t, q) \<in> set (delete_rules lib rules). \<not> contains line (cache_key t q)"
  shows "\<exists>m' s'. block [AtsCacheHandler_Add lib F env path obj,
      AtsCacheHandler_Delete ord lib F env path obj] (Some m, s) = Ok (Some m', s')
    \<and> content s' = content s"
proof -
  let ?added = "map cache_line (cache_rules lib rules)"
  obtain m1 s1 where 1: "AtsCacheHandler_Add lib F env path obj (Some m, s) = Ok (Some m1, s1)" "healthy s1"
    "content s1 = (content s)(path \<mapsto> text_of (lines @ ?added))"
    using ats_files.Add_effect [OF assms(1-3), of path m] assms(4) by (auto simp: text_of_append)
  have "filter (\<lambda>line. \<not> condemned (delete_rules lib rules) line) lines = lines"
    using assms(8) by (auto simp: condemned_distinct [OF assms(7)] intro!: filter_True)
  moreover have "filter (\<lambda>line. \<not> condemned (delete_rules lib rules) line) ?added = []"
  proof -
    have "condemned (delete_rules lib rules) (cache_line r)" if "r \<in> set (cache_rules lib rules)" for r
    proof -
      obtain t q ttl where r: "r = (t, q, ttl)" by (cases r)
      with cache_rules_delete [of t q ttl] that have "(t, q) \<in> set (delete_rules lib rules)" by simp
      moreover have "contains (cache_line r) (cache_key t q)"
        using line_contains_key [of r] by (simp add: r rule_key_def)
      ultimately show ?thesis by (auto simp: condemned_distinct [OF assms(7)])
    qed
    then show ?thesis by (auto simp: filter_empty_conv)
  qed
  ultimately have f: "filter (\<lambda>line. \<not> condemned (delete_rules lib rules) line) ((lines @ ?added) @ [[]])
      = lines @ [[]]" by simp
  obtain m2 s2 where "AtsCacheHandler_Delete ord lib F env path obj (Some m1, s1) = Ok (Some m2, s2)"
    "content s2 = (content s1)(path \<mapsto> text_of lines)"
    using ats_files.Delete_effect [OF assms(1) 1(2) assms(3), of path "text_of (lines @ ?added)" ord m1] 1(3)
    unfolding condemned_iff [OF assms(6)] split_text_of [OF assms(5)] f join_lines by auto
  with 1 assms(4) show ?thesis by (auto simp: seq_def fun_eq_iff)
qed

theorem AtsCacheHandler_Add_Delete_witness:
  "\<exists>m' s'. block [AtsCacheHandler_Add plain_lib mem_files mem_env ''c'' (ex_policy [ex_rule ''url_regex'' ''a'' ''2h'']),
      AtsCacheHandler_Delete rev plain_lib mem_files mem_env ''c'' (ex_policy [ex_rule ''url_regex'' ''a'' ''2h''])]
      (Some ex_manager, ex_disk [''# x'']) = Ok (Some m', s')
    \<and> mem_content s' = mem_content (ex_disk [''# x''])"
proof -
  let ?rules = "[ex_rule ''url_regex'' ''a'' ''2h'']"
  have r: "policy_rules plain_lib ''rules'' (ex_policy ?rules) = Some ?rules" by code_simp
  have o: "range_order (rev :: map_order)" by simp
  have l: "list_all one_line ([''# x''] @ map cache_line (cache_rules plain_lib ?rules))"
    "distinct (map fst (delete_rules plain_lib ?rules))"
    "\<forall>line \<in> set [''# x'']. \<forall>(t, q) \<in> set (delete_rules plain_lib ?rules). \<not> contains line (cache_key t q)"
    by code_simp+
  show ?thesis
    using AtsCacheHandler_Add_Delete [OF mem_ats.ats_files_axioms, OF ex_disk_facts(1), OF r,
        OF ex_disk_facts(2), OF l(1) o l(2,3), of ex_manager] .
qed

text \<open>
  When a policy has two rules of the same type, deleting it leaves the line of the first rule
  in the file: the map of patterns holds one pattern per type.
\<close>

theorem AtsCacheHandler_Delete_forgets:
  assumes "ats_files F content healthy env" "healthy s" "policy_rules lib ''rules'' obj = Some rules"
    and "content s path = Some (text_of lines)" "list_all one_line lines" "range_order ord"
    and "delete_rules lib rules = [(t, q1), (t, q2)]"
    and "cache_line (t, q1, ttl) \<in> set lines" "\<not> contains (cache_line (t, q1, ttl)) (cache_key t q2)"
  shows "\<exists>m' s' lines'. AtsCacheHandler_Delete ord lib F env path obj (Some m, s) = Ok (Some m', s')
    \<and> content s' path = Some (text_of lines') \<and> cache_line (t, q1, ttl) \<in> set lines'"
proof -
  have "\<not> condemned (delete_rules lib rules) (cache_line (t, q1, ttl))"
    using assms(9) by (simp add: condemned_def assms(7))
  with ats_files.Delete_effect [OF assms(1-4), of ord m] assms(8) show ?thesis
    unfolding condemned_iff [OF assms(6)] split_text_of [OF assms(5)] by (fastforce simp: join_lines)
qed

theorem AtsCacheHandler_Delete_forgets_witness:
  "\<exists>m' s' lines'. AtsCacheHandler_Delete rev plain_lib mem_files mem_env ''c''
      (ex_policy [ex_rule ''url_regex'' ''a'' ''2h'', ex_rule ''url_regex'' ''b'' ''2h''])
      (Some ex_manager, ex_disk [''url_regex=a ttl-in-cache=2h'', ''url_regex=b ttl-in-cache=2h''])
        = Ok (Some m', s')
    \<and> mem_content s' ''c'' = Some (text_of lines') \<and> ''url_regex=a ttl-in-cache=2h'' \<in> set lines'"
proof -
  let ?rules = "[ex_rule ''url_regex'' ''a'' ''2h'', ex_rule ''url_regex'' ''b'' ''2h'']"
  let ?lines = "[''url_regex=a ttl-in-cache=2h'', ''url_regex=b ttl-in-cache=2h'']"
  have r: "policy_rules plain_lib ''rules'' (ex_policy ?rules) = Some ?rules" by code_simp
  have o: "range_order (rev :: map_order)" by simp
  have l: "list_all one_line ?lines" by code_simp
  have d: "delete_rules plain_lib ?rules = [(''url_regex'', ''a''), (''url_regex'', ''b'')]" by code_simp
  have i: "cache_line (''url_regex'', ''a'', ''2h'') \<in> set ?lines"
    "\<not> contains (cache_line (''url_regex'', ''a'', ''2h'')) (cache_key ''url_regex'' ''b'')"
    by code_simp+
  have e: "cache_line (''url_regex'', ''a'', ''2h'') = ''url_regex=a ttl-in-cache=2h''" by code_simp
  show ?thesis
    using AtsCacheHandler_Delete_forgets [OF mem_ats.ats_files_axioms, OF ex_disk_facts(1), OF r,
        OF ex_disk_facts(2), OF l o d i, of ex_manager] unfolding e .
qed

text \<open>
  Deleting a policy also removes lines of other policies: with a rule for a pattern goes every
  line for a longer pattern that begins with it.
\<close>

theorem AtsCacheHandler_Delete_overreaches:
  assumes "ats_files F content healthy env" "healthy s" "policy_rules lib ''rules'' obj = Some rules"
    and "content s path = Some (text_of lines)" "list_all one_line lines" "range_order ord"
    and "delete_rules lib rules = [(t, q)]"
  shows "\<exists>m' s' lines'. AtsCacheHandler_Delete ord lib F env path obj (Some m, s) = Ok (Some m', s')
    \<and> content s' path = Some (text_of lines') \<and> cache_line (t, q @ r, ttl) \<notin> set lines'"
proof -
  have "cache_line (t, q @ r, ttl) = cache_key t q @ r @ '' ttl-in-cache='' @ ttl"
    by (simp add: cache_line_def cache_key_def)
  then have "contains (cache_line (t, q @ r, ttl)) (cache_key t q)" by (simp add: contains_prefix)
  then have "condemned (delete_rules lib rules) (cache_line (t, q @ r, ttl))"
    by (simp add: condemned_def assms(7))
  with ats_files.Delete_effect [OF assms(1-4), of ord m] show ?thesis
    unfolding condemned_iff [OF assms(6)] split_text_of [OF assms(5)] by (fastforce simp: join_lines)
qed

theorem AtsCacheHandler_Delete_overreaches_witness:
  "\<exists>m' s' lines'. AtsCacheHandler_Delete rev plain_lib mem_files mem_env ''c''
      (ex_policy [ex_rule ''dest_domain'' ''a.co'' ''2h''])
      (Some ex_manager, ex_disk [''dest_domain=a.com ttl-in-cache=2h'']) = Ok (Some m', s')
    \<and> mem_content s' ''c'' = Some (text_of lines') \<and> ''dest_domain=a.com ttl-in-cache=2h'' \<notin> set lines'"
proof -
  let ?rules = "[ex_rule ''dest_domain'' ''a.co'' ''2h'']"
  let ?lines = "[''dest_domain=a.com ttl-in-cache=2h'']"
  have r: "policy_rules plain_lib ''rules'' (ex_policy ?rules) = Some ?rules" by code_simp
  have o: "range_order (rev :: map_order)" by simp
  have l: "list_all one_line ?lines" by code_simp
  have d: "delete_rules plain_lib ?rules = [(''dest_domain'', ''a.co'')]" by code_simp
  have e: "cache_line (''dest_domain'', ''a.co'' @ ''m'', ''2h'') = ''dest_domain=a.com ttl-in-cache=2h''"
    by code_simp
  show ?thesis
    using AtsCacheHandler_Delete_overreaches [OF mem_ats.ats_files_axioms, OF ex_disk_facts(1), OF r,
        OF ex_disk_facts(2), OF l o d, of ex_manager "''m''" "''2h''"] unfolding e .
qed

end
