(* ===== verification/Sni_Properties.thy ===== *)
theory Sni_Properties
  imports Sni_Handler Cache_Properties
begin

text \<open>
  The properties of the SNI policy handler: the entries are a map from host names to settings that
  Add and Update override and Delete restricts; the file is replaced as a whole; and what happens
  when it cannot be read.
\<close>

section \<open>Writing and reading the file\<close>

text \<open>
  What the file is to hold for a list of entries: nothing for none, else what the library prints. When the
  library cannot print the entries, the handler leaves the file as it is (\<open>sni_written\<close>).
\<close>

definition sni_bytes :: "(SniEntry \<Rightarrow> SniEntry) \<Rightarrow> yaml_lib \<Rightarrow> SniEntry list \<Rightarrow> string option" where
  "sni_bytes eord Y sni =
     (if sni = [] then Some []
      else (case Marshal_sni Y (map (MarshalYAML eord Y) sni) of Inl err \<Rightarrow> None | Inr data \<Rightarrow> Some data))"

definition sni_written ::
    "(SniEntry \<Rightarrow> SniEntry) \<Rightarrow> yaml_lib \<Rightarrow> SniEntry list \<Rightarrow> string option \<Rightarrow> string option" where
  "sni_written eord Y sni old = (case sni_bytes eord Y sni of None \<Rightarrow> old | Some data \<Rightarrow> Some data)"

text \<open>The entries the library reads in a file.\<close>

definition sni_file :: "yaml_lib \<Rightarrow> string option \<Rightarrow> SniEntry list" where
  "sni_file Y c = (case c of None \<Rightarrow> [] | Some d \<Rightarrow> fst (Unmarshal_sni Y d))"

lemma sni_tmp_neq [simp]: "sni_tmp path \<noteq> path" "path \<noteq> sni_tmp path"
  by (simp_all add: sni_tmp_def)

context ats_files
begin

lemma writeSniFile_ok:
  assumes "healthy s"
  shows "healthy (writeSniFile eord Y F path sni s)
    \<and> content (writeSniFile eord Y F path sni s) path = sni_written eord Y sni (content s path)
    \<and> (\<forall>q. q \<noteq> path \<longrightarrow> q \<noteq> sni_tmp path \<longrightarrow>
         content (writeSniFile eord Y F path sni s) q = content s q)"
proof (cases "sni = []")
  case True
  obtain s' where "WriteFile F path [] s = (None, s')" "healthy s'" "content s' = (content s)(path \<mapsto> [])"
    using write_ok [OF assms] by blast
  with True show ?thesis by (simp add: writeSniFile_def sni_bytes_def sni_written_def)
next
  case False
  show ?thesis
  proof (cases "Marshal_sni Y (map (MarshalYAML eord Y) sni)")
    case (Inl err)
    with False assms show ?thesis by (simp add: writeSniFile_def sni_bytes_def sni_written_def)
  next
    case (Inr data)
    obtain s1 where s1: "WriteFile F (sni_tmp path) data s = (None, s1)" "healthy s1"
      "content s1 = (content s)(sni_tmp path \<mapsto> data)"
      using write_ok [OF assms] by blast
    obtain s2 where "Rename F (sni_tmp path) path s1 = (None, s2)" "healthy s2"
      "content s2 = (content s1)(sni_tmp path := None, path \<mapsto> data)"
      using rename_ok [OF s1(2), of "sni_tmp path" path data] s1(3) by auto
    with False Inr s1 show ?thesis by (simp add: writeSniFile_def sni_bytes_def sni_written_def)
  qed
qed

lemma loadSniFile_ok:
  assumes "healthy s"
  shows "\<exists>s'. loadSniFile Y F path s = (sni_file Y (content s path), s') \<and> healthy s' \<and> content s' = content s"
  using read_ok [OF assms, of path] by (auto simp: loadSniFile_def sni_file_def split: option.splits)

lemma reloadSni_ok:
  "healthy s \<Longrightarrow> \<exists>m' s'. reloadSni env (Some m, s) = Ok (Some m', s') \<and> healthy s' \<and> content s' = content s"
  using SniSet_files [of m s] by (auto simp: reloadSni_def split: prod.split)

text \<open>Load, change, write, reload: the common shape of the three operations.\<close>

lemma sni_cycle:
  assumes "healthy s" "sni_file Y (content s path) = sni"
  shows "\<exists>m' s'. (case loadSniFile Y F path s of (sni, s') \<Rightarrow>
      reloadSni env (Some m, writeSniFile eord Y F path (g sni) s')) = Ok (Some m', s') \<and> healthy s'
    \<and> content s' path = sni_written eord Y (g sni) (content s path)
    \<and> (\<forall>q. q \<noteq> path \<longrightarrow> q \<noteq> sni_tmp path \<longrightarrow> content s' q = content s q)"
proof -
  obtain s1 where s1: "loadSniFile Y F path s = (sni, s1)" "healthy s1" "content s1 = content s"
    using loadSniFile_ok [OF assms(1)] assms(2) by blast
  let ?w = "writeSniFile eord Y F path (g sni) s1"
  have w: "healthy ?w" "content ?w path = sni_written eord Y (g sni) (content s path)"
    "\<forall>q. q \<noteq> path \<longrightarrow> q \<noteq> sni_tmp path \<longrightarrow> content ?w q = content s q"
    using writeSniFile_ok [OF s1(2), of eord Y path "g sni"] s1(3) by simp_all
  obtain m' s' where "reloadSni env (Some m, ?w) = Ok (Some m', s')" "healthy s'" "content s' = content ?w"
    using reloadSni_ok [OF w(1)] by blast
  with s1(1) w(2,3) show ?thesis by simp
qed

end

text \<open>A small library for the examples: one line per entry, its scalars one after the other.\<close>

definition plain_yaml :: yaml_lib where
  "plain_yaml = \<lparr>
     Marshal_value = (\<lambda>v. case v of JString s \<Rightarrow> Inr s | _ \<Rightarrow> Inl ''unsupported''),
     Unmarshal_node = (\<lambda>b. Inr (YamlNode DocumentNode [] [] [str_node b])),
     Sprintf_v = (\<lambda>v. ''?''),
     Marshal_sni = (\<lambda>nodes. Inr (text_of (''sni:'' # map (\<lambda>n. concat (map NodeValue (Content n))) nodes))),
     Unmarshal_sni = (\<lambda>d. (map (\<lambda>line. [(''fqdn'', JString (drop 4 line))])
       (butlast (tl (split_on newline d))), None))\<rparr>"

definition ex_sni :: "string \<Rightarrow> SniEntry" where
  "ex_sni host = [(''fqdn'', JString host)]"

definition ex_sni_policy :: "SniEntry list \<Rightarrow> k8s_obj" where
  "ex_sni_policy entries = UnstructuredObj \<lparr>Name = ''p'', Namespace = ''ns'', ResourceVersion = ''1'',
     Annotations = [], Object = [(''spec'', JMap [(''sni'', JSlice (map JMap entries))])]\<rparr>"

lemma plain_written: "sni_written eord plain_yaml sni old = sni_bytes eord plain_yaml sni"
  by (simp add: sni_written_def sni_bytes_def plain_yaml_def)

section \<open>Properties\<close>

text \<open>
  C26. On a healthy disk an added policy overrides the entries of its hosts: in the list of entries
  that the handler gives the library to print, a host of the policy has the policy's last entry for it, every
  other host keeps its entry, the hosts of the old file stay in their places, and no host appears twice if
  none did before. The file then holds what the library prints for this list; when the library cannot print it,
  the file stays as it is. Only the file and its temporary neighbour are touched.
\<close>

theorem AtsSniHandler_Add_overrides:
  assumes "ats_files F content healthy env" "healthy s" "policy_rules lib ''sni'' obj = Some new"
    and "sni_file Y (content s path) = sni"
  shows "\<exists>m' s' sni'. AtsSniHandler_Add eord Y lib F env path obj (Some m, s) = Ok (Some m', s')
    \<and> content s' path = sni_written eord Y sni' (content s path)
    \<and> sni_get sni' = sni_get sni ++ map_of (rev (List.map_filter sni_entry new))
    \<and> prefix (map existing_fqdn sni) (map existing_fqdn sni')
    \<and> (distinct (map existing_fqdn sni) \<longrightarrow> distinct (map existing_fqdn sni'))
    \<and> (\<forall>q. q \<noteq> path \<longrightarrow> q \<noteq> sni_tmp path \<longrightarrow> content s' q = content s q)"
proof -
  let ?es = "List.map_filter sni_entry new"
  obtain u where u: "as_unstructured obj = Some u" "NestedSlice lib (Object u) [''spec'', ''sni''] = Found new"
    using assms(3) by (auto simp: policy_rules_Some)
  have eq: "AtsSniHandler_Add eord Y lib F env path obj (Some m, s) =
      (case loadSniFile Y F path s of (sni, s') \<Rightarrow>
        reloadSni env (Some m, writeSniFile eord Y F path (sni_add ?es sni) s'))"
    by (simp add: AtsSniHandler_Add_def u)
  obtain m' s' where r: "AtsSniHandler_Add eord Y lib F env path obj (Some m, s) = Ok (Some m', s')"
    "content s' path = sni_written eord Y (sni_add ?es sni) (content s path)"
    "\<forall>q. q \<noteq> path \<longrightarrow> q \<noteq> sni_tmp path \<longrightarrow> content s' q = content s q"
    unfolding eq using ats_files.sni_cycle [OF assms(1,2,4), where g = "sni_add ?es" and m = m and eord = eord] by blast
  show ?thesis
    by (intro exI [of _ m'] exI [of _ s'] exI [of _ "sni_add ?es sni"] conjI impI r
        sni_add_get [OF sni_entry_own] sni_add_prefix [OF sni_entry_own] sni_add_distinct [OF sni_entry_own])
qed

theorem AtsSniHandler_Add_overrides_witness:
  "\<exists>m' s' sni'. AtsSniHandler_Add (\<lambda>e. e) plain_yaml plain_lib mem_files mem_env ''c''
      (ex_sni_policy [ex_sni ''b.com'']) (Some ex_manager, ex_disk [''sni:'', ''fqdna.com'']) = Ok (Some m', s')
    \<and> mem_content s' ''c'' = sni_bytes (\<lambda>e. e) plain_yaml sni'
    \<and> sni_get sni' ''a.com'' = Some (ex_sni ''a.com'') \<and> sni_get sni' ''b.com'' = Some (ex_sni ''b.com'')"
proof -
  let ?new = "[JMap (ex_sni ''b.com'')]" and ?sni = "[ex_sni ''a.com'']"
  have r: "policy_rules plain_lib ''sni'' (ex_sni_policy [ex_sni ''b.com'']) = Some ?new" by code_simp
  have d: "sni_file plain_yaml (mem_content (ex_disk [''sni:'', ''fqdna.com'']) ''c'') = ?sni"
    by code_simp
  have e: "List.map_filter sni_entry ?new = [(''b.com'', ex_sni ''b.com'')]" by code_simp
  have g: "sni_get ?sni ''a.com'' = Some (ex_sni ''a.com'')" by code_simp
  obtain m' s' sni' where "AtsSniHandler_Add (\<lambda>e. e) plain_yaml plain_lib mem_files mem_env ''c''
      (ex_sni_policy [ex_sni ''b.com'']) (Some ex_manager, ex_disk [''sni:'', ''fqdna.com'']) = Ok (Some m', s')"
    "mem_content s' ''c'' = sni_bytes (\<lambda>e. e) plain_yaml sni'"
    "sni_get sni' = sni_get ?sni ++ map_of (rev (List.map_filter sni_entry ?new))"
    using AtsSniHandler_Add_overrides [OF mem_ats.ats_files_axioms, OF ex_disk_facts(1), OF r, OF d, where m = ex_manager] unfolding plain_written by blast
  with g show ?thesis unfolding e by fastforce
qed

text \<open>
  An update has, on a healthy disk, the same effect on the map from hosts to entries as an
  addition of the new object, in whatever order Go ranges over its map: a host that only the old
  object had keeps its entry, although the policy no longer mentions it.
\<close>

theorem AtsSniHandler_Update_overrides:
  assumes "ats_files F content healthy env" "healthy s" "policy_rules lib ''sni'' newObj = Some new"
    and "sni_file Y (content s path) = sni"
    and "range_order ord"
  shows "\<exists>m' s' sni'. AtsSniHandler_Update ord eord Y lib F env path oldObj newObj (Some m, s) = Ok (Some m', s')
    \<and> content s' path = sni_written eord Y sni' (content s path)
    \<and> sni_get sni' = sni_get sni ++ map_of (rev (List.map_filter sni_entry new))
    \<and> (\<forall>q. q \<noteq> path \<longrightarrow> q \<noteq> sni_tmp path \<longrightarrow> content s' q = content s q)"
proof -
  let ?M = "entry_map (List.map_filter sni_entry new)"
  obtain u where u: "as_unstructured newObj = Some u" "NestedSlice lib (Object u) [''spec'', ''sni''] = Found new"
    using assms(3) by (auto simp: policy_rules_Some)
  have eq: "AtsSniHandler_Update ord eord Y lib F env path oldObj newObj (Some m, s) =
      (case loadSniFile Y F path s of (sni, s') \<Rightarrow>
        reloadSni env (Some m, writeSniFile eord Y F path (sni_update ord ?M sni) s'))"
    by (simp add: AtsSniHandler_Update_def u)
  obtain m' s' where r: "AtsSniHandler_Update ord eord Y lib F env path oldObj newObj (Some m, s) = Ok (Some m', s')"
    "content s' path = sni_written eord Y (sni_update ord ?M sni) (content s path)"
    "\<forall>q. q \<noteq> path \<longrightarrow> q \<noteq> sni_tmp path \<longrightarrow> content s' q = content s q"
    unfolding eq using ats_files.sni_cycle [OF assms(1,2,4), where g = "sni_update ord ?M" and m = m and eord = eord] by blast
  show ?thesis
    by (intro exI [of _ m'] exI [of _ s'] exI [of _ "sni_update ord ?M sni"] conjI r
        sni_update_get [OF sni_entry_own assms(5)])
qed

theorem AtsSniHandler_Update_overrides_witness:
  "\<exists>m' s' sni'. AtsSniHandler_Update rev (\<lambda>e. e) plain_yaml plain_lib mem_files mem_env ''c''
      (ex_sni_policy [ex_sni ''a.com'']) (ex_sni_policy [ex_sni ''b.com''])
      (Some ex_manager, ex_disk [''sni:'', ''fqdna.com'']) = Ok (Some m', s')
    \<and> mem_content s' ''c'' = sni_bytes (\<lambda>e. e) plain_yaml sni'
    \<and> sni_get sni' ''a.com'' = Some (ex_sni ''a.com'')"
proof -
  let ?new = "[JMap (ex_sni ''b.com'')]" and ?sni = "[ex_sni ''a.com'']"
  have r: "policy_rules plain_lib ''sni'' (ex_sni_policy [ex_sni ''b.com'']) = Some ?new" by code_simp
  have d: "sni_file plain_yaml (mem_content (ex_disk [''sni:'', ''fqdna.com'']) ''c'') = ?sni"
    by code_simp
  have e: "List.map_filter sni_entry ?new = [(''b.com'', ex_sni ''b.com'')]" by code_simp
  have g: "sni_get ?sni ''a.com'' = Some (ex_sni ''a.com'')" by code_simp
  have o: "range_order (rev :: sni_order)" by simp
  obtain m' s' sni' where "AtsSniHandler_Update rev (\<lambda>e. e) plain_yaml plain_lib mem_files mem_env ''c''
      (ex_sni_policy [ex_sni ''a.com'']) (ex_sni_policy [ex_sni ''b.com''])
      (Some ex_manager, ex_disk [''sni:'', ''fqdna.com'']) = Ok (Some m', s')"
    "mem_content s' ''c'' = sni_bytes (\<lambda>e. e) plain_yaml sni'"
    "sni_get sni' = sni_get ?sni ++ map_of (rev (List.map_filter sni_entry ?new))"
    using AtsSniHandler_Update_overrides [OF mem_ats.ats_files_axioms, OF ex_disk_facts(1), OF r, OF d o, where m = ex_manager and oldObj = "ex_sni_policy [ex_sni ''a.com'']"] unfolding plain_written by blast
  with g show ?thesis unfolding e by fastforce
qed

text \<open>
  A deletion removes, on a healthy disk, every entry of every host the policy mentions, and
  keeps the other entries in their order.
\<close>

theorem AtsSniHandler_Delete_removes:
  assumes "ats_files F content healthy env" "healthy s" "policy_rules lib ''sni'' obj = Some old"
    and "sni_file Y (content s path) = sni"
  shows "\<exists>m' s' sni'. AtsSniHandler_Delete eord Y lib F env path obj (Some m, s) = Ok (Some m', s')
    \<and> content s' path = sni_written eord Y sni' (content s path) \<and> subseq sni' sni
    \<and> (\<forall>f. sni_get sni' f =
          (if f \<in> fst ` set (List.map_filter sni_entry old) then None else sni_get sni f))"
proof -
  let ?fs = "map fst (List.map_filter sni_entry old)"
  obtain u where u: "as_unstructured obj = Some u" "NestedSlice lib (Object u) [''spec'', ''sni''] = Found old"
    using assms(3) by (auto simp: policy_rules_Some)
  have eq: "AtsSniHandler_Delete eord Y lib F env path obj (Some m, s) =
      (case loadSniFile Y F path s of (sni, s') \<Rightarrow>
        reloadSni env (Some m, writeSniFile eord Y F path (sni_delete ?fs sni) s'))"
    by (simp add: AtsSniHandler_Delete_def u)
  obtain m' s' where r: "AtsSniHandler_Delete eord Y lib F env path obj (Some m, s) = Ok (Some m', s')"
    "content s' path = sni_written eord Y (sni_delete ?fs sni) (content s path)"
    unfolding eq using ats_files.sni_cycle [OF assms(1,2,4), where g = "sni_delete ?fs" and m = m and eord = eord] by blast
  have "subseq (sni_delete ?fs sni) sni" by (simp add: sni_delete_def)
  with r show ?thesis
    by (intro exI [of _ m'] exI [of _ s'] exI [of _ "sni_delete ?fs sni"]) (simp add: sni_delete_get)
qed

theorem AtsSniHandler_Delete_removes_witness:
  "\<exists>m' s' sni'. AtsSniHandler_Delete (\<lambda>e. e) plain_yaml plain_lib mem_files mem_env ''c''
      (ex_sni_policy [ex_sni ''b.com'']) (Some ex_manager, ex_disk [''sni:'', ''fqdna.com'', ''fqdnb.com''])
        = Ok (Some m', s')
    \<and> mem_content s' ''c'' = sni_bytes (\<lambda>e. e) plain_yaml sni'
    \<and> sni_get sni' ''a.com'' = Some (ex_sni ''a.com'') \<and> sni_get sni' ''b.com'' = None"
proof -
  let ?old = "[JMap (ex_sni ''b.com'')]" and ?sni = "[ex_sni ''a.com'', ex_sni ''b.com'']"
  have r: "policy_rules plain_lib ''sni'' (ex_sni_policy [ex_sni ''b.com'']) = Some ?old" by code_simp
  have d: "sni_file plain_yaml (mem_content (ex_disk [''sni:'', ''fqdna.com'', ''fqdnb.com'']) ''c'') = ?sni"
    by code_simp
  have e: "fst ` set (List.map_filter sni_entry ?old) = {''b.com''}" by code_simp
  have g: "sni_get ?sni ''a.com'' = Some (ex_sni ''a.com'')" by code_simp
  obtain m' s' sni' where "AtsSniHandler_Delete (\<lambda>e. e) plain_yaml plain_lib mem_files mem_env ''c''
      (ex_sni_policy [ex_sni ''b.com'']) (Some ex_manager, ex_disk [''sni:'', ''fqdna.com'', ''fqdnb.com''])
        = Ok (Some m', s')"
    "mem_content s' ''c'' = sni_bytes (\<lambda>e. e) plain_yaml sni'"
    "\<forall>f. sni_get sni' f = (if f \<in> fst ` set (List.map_filter sni_entry ?old) then None else sni_get ?sni f)"
    using AtsSniHandler_Delete_removes [OF mem_ats.ats_files_axioms, OF ex_disk_facts(1), OF r, OF d, where m = ex_manager] unfolding plain_written by blast
  with g show ?thesis unfolding e by fastforce
qed

text \<open>
  C28. Whatever fails, also on a full disk, a write of the list of entries leaves \<open>sni.yaml\<close> either
  as it was or with the complete new text, never with a part of it; when the library cannot print the
  entries the file is as it was. No other file is touched but the temporary one.
\<close>

theorem writeSniFile_atomic:
  assumes "failing_files F content healthy"
  shows "content (writeSniFile eord Y F path sni s) path
      \<in> insert (content s path) (Some ` set_option (sni_bytes eord Y sni))
    \<and> (\<forall>q. q \<noteq> path \<longrightarrow> q \<noteq> sni_tmp path \<longrightarrow>
         content (writeSniFile eord Y F path sni s) q = content s q)"
proof -
  note disk = failing_files.axioms(1) [OF assms]
  note frame = file_system.write_frame [OF disk]
  show ?thesis
  proof (cases "sni = []")
    case True
    then show ?thesis
      using failing_files.write_partial [OF assms, of path "[]" s] frame
      by (auto simp: writeSniFile_def sni_bytes_def)
  next
    case False
    show ?thesis
    proof (cases "Marshal_sni Y (map (MarshalYAML eord Y) sni)")
      case (Inl err)
      with False show ?thesis by (simp add: writeSniFile_def)
    next
      case (Inr data)
      with False have data: "sni_bytes eord Y sni = Some data" by (simp add: sni_bytes_def)
      obtain err s1 where w: "WriteFile F (sni_tmp path) data s = (err, s1)" by (cases "WriteFile F (sni_tmp path) data s")
      have s1: "content s1 q = content s q" if "q \<noteq> sni_tmp path" for q
        using frame [of q "sni_tmp path" data s] w that by simp
      show ?thesis
      proof (cases err)
        case None
        then have "content s1 (sni_tmp path) = Some data"
          using file_system.write_done [OF disk, of "sni_tmp path" data s] w by simp
        with file_system.rename_atomic [OF disk, of "sni_tmp path" path s1] s1 None w Inr False data
          failing_files.rename_frame [OF assms, of _ "sni_tmp path" path s1]
        show ?thesis by (auto simp: writeSniFile_def)
      next
        case (Some e)
        with s1 w Inr False show ?thesis by (simp add: writeSniFile_def)
      qed
    qed
  qed
qed

theorem writeSniFile_atomic_witness:
  "mem_content (writeSniFile (\<lambda>e. e) plain_yaml mem_files ''c'' [ex_sni ''b.com'']
      ((ex_disk [''sni:'', ''fqdna.com''])\<lparr>disk_full := True\<rparr>)) ''c''
    \<in> {Some (text_of [''sni:'', ''fqdna.com'']), Some (text_of [''sni:'', ''fqdnb.com''])}"
proof -
  have b: "sni_bytes (\<lambda>e. e) plain_yaml [ex_sni ''b.com''] = Some (text_of [''sni:'', ''fqdnb.com''])" by code_simp
  have c: "mem_content ((ex_disk [''sni:'', ''fqdna.com''])\<lparr>disk_full := True\<rparr>) ''c''
      = Some (text_of [''sni:'', ''fqdna.com''])" by code_simp
  show ?thesis
    using writeSniFile_atomic [OF mem_failing.failing_files_axioms, of "\<lambda>e. e" plain_yaml "''c''" "[ex_sni ''b.com'']"
        "(ex_disk [''sni:'', ''fqdna.com''])\<lparr>disk_full := True\<rparr>"] unfolding b c by simp
qed

text \<open>
  When the file exists but cannot be read, an addition goes on as if it were empty and
  writes a file with the entries of the new policy alone: the entries of all other policies are lost.
\<close>

theorem AtsSniHandler_Add_unreadable:
  assumes "policy_rules lib ''sni'' obj = Some new" "ReadFile F path s = (Inl (ReadError err), s1)"
  shows "\<exists>sni'. AtsSniHandler_Add eord Y lib F env path obj (manager, s)
      = reloadSni env (manager, writeSniFile eord Y F path sni' s1)
    \<and> sni_get sni' = map_of (rev (List.map_filter sni_entry new))"
proof -
  let ?es = "List.map_filter sni_entry new"
  obtain u where u: "as_unstructured obj = Some u" "NestedSlice lib (Object u) [''spec'', ''sni''] = Found new"
    using assms(1) by (auto simp: policy_rules_Some)
  have "AtsSniHandler_Add eord Y lib F env path obj (manager, s)
      = reloadSni env (manager, writeSniFile eord Y F path (sni_add ?es []) s1)"
    by (simp add: AtsSniHandler_Add_def u loadSniFile_def assms(2))
  moreover have "sni_get (sni_add ?es []) = map_of (rev ?es)"
    using sni_add_get [OF sni_entry_own, of new "[]"] by (simp add: map_add_def fun_eq_iff split: option.split)
  ultimately show ?thesis by blast
qed

theorem AtsSniHandler_Add_unreadable_witness:
  "\<exists>sni'. AtsSniHandler_Add (\<lambda>e. e) plain_yaml plain_lib mem_files mem_env ''c''
      (ex_sni_policy [ex_sni ''b.com'']) (Some ex_manager, (ex_disk [''sni:'', ''fqdna.com''])\<lparr>unreadable := True\<rparr>)
      = reloadSni mem_env (Some ex_manager, writeSniFile (\<lambda>e. e) plain_yaml mem_files ''c'' sni'
          ((ex_disk [''sni:'', ''fqdna.com''])\<lparr>unreadable := True\<rparr>))
    \<and> sni_get sni' ''a.com'' = None"
proof -
  let ?s = "(ex_disk [''sni:'', ''fqdna.com''])\<lparr>unreadable := True\<rparr>"
  have r: "policy_rules plain_lib ''sni'' (ex_sni_policy [ex_sni ''b.com'']) = Some [JMap (ex_sni ''b.com'')]"
    by code_simp
  have f: "ReadFile mem_files ''c'' ?s = (Inl (ReadError ''permission denied''), ?s)"
    by (simp add: mem_files_def)
  have e: "List.map_filter sni_entry [JMap (ex_sni ''b.com'')] = [(''b.com'', ex_sni ''b.com'')]" by code_simp
  from AtsSniHandler_Add_unreadable [OF r f, of "\<lambda>e. e" plain_yaml mem_env "Some ex_manager"]
  show ?thesis unfolding e by auto
qed

text \<open>
  The node of an entry lists the host name first and the other keys in ascending byte order,
  each key of the entry once and with its own value, whatever the order in which Go ranges over
  the entry.
\<close>

theorem MarshalYAML_order:
  assumes "range_order eord" "gm_wf s"
  shows "\<exists>keys. Content (MarshalYAML eord Y s) = concat (map (\<lambda>k. entry_nodes Y k (the (gm_get s k))) keys)
    \<and> set keys = fst ` set s \<and> distinct keys
    \<and> (if gm_has s ''fqdn'' then hd keys = ''fqdn'' \<and> sorted (tl keys) else sorted keys)"
proof -
  let ?others = "other_keys eord s"
  let ?keys = "(if gm_has s ''fqdn'' then [''fqdn''] else []) @ ?others"
  have set: "set ?others = fst ` set s - {''fqdn''}"
    using range_order_set [OF assms(1), of s] by (auto simp: other_keys_def)
  have "gm_wf (eord s)" by (rule range_order_distinct_keys [OF assms])
  then have d: "distinct ?others" by (simp add: other_keys_def gm_wf_def)
  have "Content (MarshalYAML eord Y s) = concat (map (\<lambda>k. entry_nodes Y k (the (gm_get s k))) ?keys)"
    by (auto simp: MarshalYAML_def gm_has_def split: option.split)
  moreover have "set ?keys = fst ` set s"
  proof (cases "gm_has s ''fqdn''")
    case True
    then have "''fqdn'' \<in> fst ` set s" by (simp only: gm_has_iff)
    with True set show ?thesis by auto
  next
    case False
    then have "''fqdn'' \<notin> fst ` set s" by (simp only: gm_has_iff not_False_eq_True)
    with False set show ?thesis by simp
  qed
  moreover have "distinct ?keys" using d set by auto
  moreover have "sorted ?others" by (simp add: other_keys_def)
  ultimately show ?thesis by (intro exI [of _ ?keys]) simp
qed

theorem MarshalYAML_order_witness:
  "\<exists>keys. Content (MarshalYAML rev plain_yaml [(''b'', JString ''1''), (''fqdn'', JString ''h''), (''a'', JNull)])
      = concat (map (\<lambda>k. entry_nodes plain_yaml k (the (gm_get [(''b'', JString ''1''), (''fqdn'', JString ''h''), (''a'', JNull)] k))) keys)
    \<and> set keys = {''a'', ''b'', ''fqdn''} \<and> hd keys = ''fqdn'' \<and> sorted (tl keys)"
proof -
  let ?e = "[(''b'', JString ''1''), (''fqdn'', JString ''h''), (''a'', JNull)]"
  have o: "range_order (rev :: SniEntry \<Rightarrow> SniEntry)" by simp
  have w: "gm_wf ?e" "gm_has ?e ''fqdn''" by code_simp+
  have k: "fst ` set ?e = {''a'', ''b'', ''fqdn''}" by auto
  obtain keys where "Content (MarshalYAML rev plain_yaml ?e)
      = concat (map (\<lambda>k. entry_nodes plain_yaml k (the (gm_get ?e k))) keys)"
    "set keys = fst ` set ?e" "if gm_has ?e ''fqdn'' then hd keys = ''fqdn'' \<and> sorted (tl keys) else sorted keys"
    using MarshalYAML_order [OF o w(1), of plain_yaml] by blast
  then show ?thesis unfolding k using w(2) by (intro exI [of _ keys]) simp
qed

text \<open>
  Both policy handlers assert the type of the object without a check: a tombstone, which the
  informer delivers for a deletion it learnt of late, ends the controller in a panic.
\<close>

lemma policy_handlers_tombstone:
  "AtsCacheHandler_Delete ord lib F env path (DeletedFinalStateUnknown key obj) s = Panic s"
  "AtsSniHandler_Delete eord Y lib F env path (DeletedFinalStateUnknown key obj) s = Panic s"
  by (cases s; simp add: AtsCacheHandler_Delete_def AtsSniHandler_Delete_def)+

end
