(* ===== verification/Controller.thy ===== *)
theory Controller
  imports Redis_Calls Configmap_Handler Sni_Properties
begin

text \<open>
  The five handlers together, over one world: the Redis server on one side, the ATS manager with the
  files and the commands on the other. Each handler works on one side only, so a run of the
  controller splits into what the two sides see.
\<close>

section \<open>Two sides of a state\<close>

definition on_fst :: "'a prog \<Rightarrow> ('a \<times> 'b) prog" where
  "on_fst p = (\<lambda>(a, b). case p a of Ok a' \<Rightarrow> Ok (a', b) | Panic a' \<Rightarrow> Panic (a', b))"

definition on_snd :: "'b prog \<Rightarrow> ('a \<times> 'b) prog" where
  "on_snd p = (\<lambda>(a, b). case p b of Ok b' \<Rightarrow> Ok (a, b') | Panic b' \<Rightarrow> Panic (a, b'))"

lemma on_side_Ok:
  "p a = Ok a' \<Longrightarrow> on_fst p (a, b) = Ok (a', b)" "q b = Ok b' \<Longrightarrow> on_snd q (a, b) = Ok (a, b')"
  by (simp_all add: on_fst_def on_snd_def)

lemma for_each_sides:
  assumes "for_each f (filter P xs) a = Ok a'" "for_each g (filter (\<lambda>x. \<not> P x) xs) b = Ok b'"
  shows "for_each (\<lambda>x. if P x then on_fst (f x) else on_snd (g x)) xs (a, b) = Ok (a', b')"
  using assms
proof (induction xs arbitrary: a b)
  case Nil
  then show ?case by (simp add: skip_def)
next
  case (Cons x xs)
  show ?case
  proof (cases "P x")
    case True
    with Cons.prems(1) obtain a1 where a1: "f x a = Ok a1" "for_each f (filter P xs) a1 = Ok a'"
      by (auto simp: seq_def split: res.splits)
    with Cons.IH [OF a1(2)] Cons.prems(2) True show ?thesis by (simp add: seq_def on_side_Ok)
  next
    case False
    with Cons.prems(2) obtain b1 where b1: "g x b = Ok b1" "for_each g (filter (\<lambda>x. \<not> P x) xs) b1 = Ok b'"
      by (auto simp: seq_def split: res.splits)
    with Cons.IH [OF _ b1(2)] Cons.prems(1) False show ?thesis by (simp add: seq_def on_side_Ok)
  qed
qed

section \<open>The handlers\<close>

type_synonym ('r, 'x) world = "'r \<times> 'x ats_state"

text \<open>What the handlers use of the outside: libraries, the server, and the orders of range loops.\<close>

record ('r, 'x) outside =
  Redis_of :: "'r redis_api"
  Files_of :: "'x file_api"
  Ats_of :: "'x ats_env"
  Yaml_of :: yaml_lib
  Nested_of :: unstructured_lib
  Range_order :: map_order
  Entry_order :: "SniEntry \<Rightarrow> SniEntry"
  Sni_range :: sni_order

definition redis_handler :: "(k8s_obj, 'r) EventHandler \<Rightarrow> (k8s_obj, ('r, 'x) world) EventHandler" where
  "redis_handler h = \<lparr>Add = (\<lambda>ob. on_fst (Add h ob)), Update = (\<lambda>ob newOb. on_fst (Update h ob newOb)),
     Delete = (\<lambda>ob. on_fst (Delete h ob)), GetResourceName = GetResourceName h\<rparr>"

definition ats_handler :: "(k8s_obj, 'x ats_state) EventHandler \<Rightarrow> (k8s_obj, ('r, 'x) world) EventHandler" where
  "ats_handler h = \<lparr>Add = (\<lambda>ob. on_snd (Add h ob)), Update = (\<lambda>ob newOb. on_snd (Update h ob newOb)),
     Delete = (\<lambda>ob. on_snd (Delete h ob)), GetResourceName = GetResourceName h\<rparr>"

lemma deliver_side:
  "deliver (redis_handler h) ev = on_fst (deliver h ev)"
  "deliver (ats_handler h') ev = on_snd (deliver h' ev)"
  by (cases ev; simp add: redis_handler_def ats_handler_def)+

definition CACHE_PATH :: string where
  "CACHE_PATH = ''/opt/ats/etc/trafficserver/cache.config''"

definition SNI_PATH :: string where
  "SNI_PATH = ''/opt/ats/etc/trafficserver/sni.yaml''"

text \<open>Where an event comes from: one of the five informers.\<close>

datatype source = Ingresses_source | Endpoints_source | ConfigMaps_source | Caching_source | Sni_source

fun redis_source :: "source \<Rightarrow> bool" where
  "redis_source Ingresses_source = True"
| "redis_source Endpoints_source = True"
| "redis_source _ = False"

fun redis_part :: "('r, 'x) outside \<Rightarrow> Endpoint \<Rightarrow> source \<Rightarrow> (k8s_obj, 'r) EventHandler" where
  "redis_part P E Ingresses_source = IgHandler (Range_order P) (Redis_of P) E"
| "redis_part P E _ = EpHandler (Redis_of P) E"

fun ats_part :: "('r, 'x) outside \<Rightarrow> source \<Rightarrow> (k8s_obj, 'x ats_state) EventHandler" where
  "ats_part P Caching_source = AtsCacheHandler (Range_order P) (Nested_of P) (Files_of P) (Ats_of P) CACHE_PATH"
| "ats_part P Sni_source = AtsSniHandler (Sni_range P) (Entry_order P) (Yaml_of P) (Nested_of P)
     (Files_of P) (Ats_of P) SNI_PATH"
| "ats_part P _ = CMHandler (Range_order P) (Ats_of P)"

definition source_handler :: "('r, 'x) outside \<Rightarrow> Endpoint \<Rightarrow> source \<Rightarrow> (k8s_obj, ('r, 'x) world) EventHandler" where
  "source_handler P E src =
     (if redis_source src then redis_handler (redis_part P E src) else ats_handler (ats_part P src))"

text \<open>The objects the informer of a source delivers, as the contracts of the handlers have them.\<close>

fun source_valid :: "Endpoint \<Rightarrow> source \<Rightarrow> k8s_obj \<Rightarrow> bool" where
  "source_valid E Ingresses_source ob = ig_safe E ob"
| "source_valid E Endpoints_source ob = ep_valid ob"
| "source_valid E ConfigMaps_source ob = True"
| "source_valid E _ ob = policy_valid ob"

definition valid_events :: "Endpoint \<Rightarrow> (source \<times> k8s_obj event) list \<Rightarrow> bool" where
  "valid_events E evs \<longleftrightarrow> list_all (\<lambda>(src, ev). list_all (source_valid E src) (event_objects ev)) evs"

text \<open>A run: the events of all informers in the order in which the handlers got them.\<close>

definition controller_run ::
    "('r, 'x) outside \<Rightarrow> Endpoint \<Rightarrow> (source \<times> k8s_obj event) list \<Rightarrow> ('r, 'x) world prog" where
  "controller_run P E evs = for_each (\<lambda>(src, ev). deliver (source_handler P E src) ev) evs"

definition events_of :: "source \<Rightarrow> (source \<times> k8s_obj event) list \<Rightarrow> k8s_obj event list" where
  "events_of src evs = map snd (filter (\<lambda>se. fst se = src) evs)"

section \<open>What each side sees\<close>

definition redis_run :: "('r, 'x) outside \<Rightarrow> Endpoint \<Rightarrow> (source \<times> k8s_obj event) list \<Rightarrow> 'r prog" where
  "redis_run P E evs = for_each (\<lambda>(src, ev). deliver (redis_part P E src) ev) (filter (redis_source \<circ> fst) evs)"

definition ats_run :: "('r, 'x) outside \<Rightarrow> (source \<times> k8s_obj event) list \<Rightarrow> 'x ats_state prog" where
  "ats_run P evs = for_each (\<lambda>(src, ev). deliver (ats_part P src) ev) (filter (\<lambda>se. \<not> (redis_source \<circ> fst) se) evs)"

lemma controller_run_sides:
  assumes "redis_run P E evs s = Ok s'" "ats_run P evs a = Ok a'"
  shows "controller_run P E evs (s, a) = Ok (s', a')"
proof -
  have "controller_run P E evs = for_each (\<lambda>se. if (redis_source \<circ> fst) se
      then on_fst (case se of (src, ev) \<Rightarrow> deliver (redis_part P E src) ev)
      else on_snd (case se of (src, ev) \<Rightarrow> deliver (ats_part P src) ev)) evs"
    unfolding controller_run_def
    by (rule arg_cong [where f = "\<lambda>f. for_each f evs"])
      (auto simp: source_handler_def deliver_side fun_eq_iff)
  with for_each_sides [OF assms [unfolded redis_run_def ats_run_def]] show ?thesis by simp
qed

text \<open>The side of Redis is a list of calls.\<close>

fun source_calls :: "('r, 'x) outside \<Rightarrow> Endpoint \<Rightarrow> source \<times> k8s_obj event \<Rightarrow> redis_call list" where
  "source_calls P E (Ingresses_source, ev) = ig_calls (Range_order P) E ev"
| "source_calls P E (Endpoints_source, ev) = ep_calls E ev"
| "source_calls P E _ = []"

lemma source_valid_funs:
  "source_valid E Ingresses_source = ig_safe E" "source_valid E Endpoints_source = ep_valid"
  by (simp_all add: fun_eq_iff)

lemma redis_run_calls:
  assumes "valid_events E evs"
  shows "redis_run P E evs = run_calls (Redis_of P) (RedisClient E) (concat (map (source_calls P E) evs))"
  using assms
proof (induction evs)
  case Nil
  then show ?case by (simp add: redis_run_def)
next
  case (Cons se evs)
  obtain src ev where se: "se = (src, ev)" by (cases se)
  have "list_all (source_valid E src) (event_objects ev)" "valid_events E evs"
    using Cons.prems by (simp_all add: valid_events_def se)
  with Cons.IH show ?case
    by (cases src) (simp_all add: se redis_run_def IgHandler_calls EpHandler_calls source_valid_funs)
qed

lemma source_calls_db:
  "filter (on_db 1) (source_calls P E (src, ev)) =
     (if src = Ingresses_source then filter (on_db 1) (ig_calls (Range_order P) E ev) else [])"
  "filter (on_db 0) (source_calls P E (src, ev)) =
     (if src = Endpoints_source then filter (on_db 0) (ep_calls E ev) else [])"
  using ig_calls_db [of "Range_order P" E ev] ep_calls_db [of E ev]
  by (cases src; simp add: filter_empty_conv list_all_iff)+

lemma source_calls_filter:
  "filter (on_db 1) (concat (map (source_calls P E) evs)) =
     filter (on_db 1) (concat (map (ig_calls (Range_order P) E) (events_of Ingresses_source evs)))"
  "filter (on_db 0) (concat (map (source_calls P E) evs)) =
     filter (on_db 0) (concat (map (ep_calls E) (events_of Endpoints_source evs)))"
  by (induction evs; force simp: events_of_def source_calls_db)+

lemma events_of_valid:
  "valid_events E evs \<Longrightarrow> list_all (\<lambda>ev. list_all (source_valid E src) (event_objects ev)) (events_of src evs)"
  by (auto simp: valid_events_def events_of_def list_all_iff)

lemma redis_run_result:
  assumes "redis_server (Redis_of P) members up" "client_open (RedisClient E)" "up s" "valid_events E evs"
  shows "\<exists>s' t u. redis_run P E evs s = Ok s' \<and> up s'
    \<and> deliver_all (IgHandler (Range_order P) (Redis_of P) E) (events_of Ingresses_source evs) s = Ok t
    \<and> members s' 1 = members t 1
    \<and> deliver_all (EpHandler (Redis_of P) E) (events_of Endpoints_source evs) s = Ok u
    \<and> members s' 0 = members u 0"
proof -
  let ?all = "concat (map (source_calls P E) evs)"
  let ?igs = "concat (map (ig_calls (Range_order P) E) (events_of Ingresses_source evs))"
  let ?eps = "concat (map (ep_calls E) (events_of Endpoints_source evs))"
  have ig: "deliver_all (IgHandler (Range_order P) (Redis_of P) E) (events_of Ingresses_source evs)
      = run_calls (Redis_of P) (RedisClient E) ?igs"
    by (rule deliver_all_calls)
      (use events_of_valid [OF assms(4), of Ingresses_source] in
        \<open>auto simp: list_all_iff source_valid_funs intro!: IgHandler_calls\<close>)
  have ep: "deliver_all (EpHandler (Redis_of P) E) (events_of Endpoints_source evs)
      = run_calls (Redis_of P) (RedisClient E) ?eps"
    by (rule deliver_all_calls) (rule EpHandler_calls)
  note run = run_calls_result [OF assms(1-3)]
  have "fold call_effect ?all (members s) 1 = fold call_effect ?igs (members s) 1"
    "fold call_effect ?all (members s) 0 = fold call_effect ?eps (members s) 0"
    by (metis calls_effect_filter source_calls_filter)+
  then show ?thesis
    unfolding redis_run_calls [OF assms(4)] ig ep using run [of ?all] run [of ?igs] run [of ?eps] by metis
qed

text \<open>The side of ATS keeps the manager.\<close>

lemma ats_part_contract:
  assumes "range_order (Range_order P)"
  shows "event_handler (ats_part P src) (source_valid E (if redis_source src then ConfigMaps_source else src))
    (managed c)"
proof -
  have "source_valid E ConfigMaps_source = (\<lambda>_. True)" "source_valid E Caching_source = policy_valid"
    "source_valid E Sni_source = policy_valid"
    by (simp_all add: fun_eq_iff)
  then show ?thesis
    using CMHandler_contract [OF assms] caching.event_handler_axioms sni.event_handler_axioms
    by (cases src) simp_all
qed

lemma ats_run_result:
  assumes "range_order (Range_order P)" "valid_events E evs" "managed c a"
  shows "\<exists>a'. ats_run P evs a = Ok a' \<and> managed c a'"
  using assms(2,3)
proof (induction evs arbitrary: a)
  case Nil
  then show ?case by (simp add: ats_run_def skip_def)
next
  case (Cons se evs)
  obtain src ev where se: "se = (src, ev)" by (cases se)
  have v: "list_all (source_valid E src) (event_objects ev)" "valid_events E evs"
    using Cons.prems(1) by (simp_all add: valid_events_def se)
  show ?case
  proof (cases "redis_source src")
    case True
    with Cons.IH [OF v(2) Cons.prems(2)] show ?thesis by (simp add: ats_run_def se)
  next
    case False
    then obtain a1 where "deliver (ats_part P src) ev a = Ok a1" "managed c a1"
      using event_handler.deliver_inv [OF ats_part_contract [OF assms(1)], of E src ev c a] v(1) Cons.prems(2)
      by auto
    with Cons.IH [OF v(2)] False show ?thesis by (simp add: ats_run_def se seq_def)
  qed
qed

section \<open>Properties\<close>

lemma controller_run_result:
  assumes "redis_server (Redis_of P) members up" "client_open (RedisClient E)" "up s"
    and "range_order (Range_order P)" "valid_events E evs"
    and "temp_clean 0 (members s)" "temp_clean 1 (members s)" "managed c a"
  shows "\<exists>s' a' t u. controller_run P E evs (s, a) = Ok (s', a') \<and> up s' \<and> managed c a'
    \<and> deliver_all (IgHandler (Range_order P) (Redis_of P) E) (events_of Ingresses_source evs) s = Ok t
    \<and> members s' 1 = members t 1 \<and> temp_clean 1 (members s')
    \<and> deliver_all (EpHandler (Redis_of P) E) (events_of Endpoints_source evs) s = Ok u
    \<and> members s' 0 = members u 0 \<and> temp_clean 0 (members s')"
proof -
  obtain s' t u where r: "redis_run P E evs s = Ok s'" "up s'"
    "deliver_all (IgHandler (Range_order P) (Redis_of P) E) (events_of Ingresses_source evs) s = Ok t"
    "members s' 1 = members t 1"
    "deliver_all (EpHandler (Redis_of P) E) (events_of Endpoints_source evs) s = Ok u"
    "members s' 0 = members u 0"
    using redis_run_result [OF assms(1-3,5)] by blast
  obtain a' where a': "ats_run P evs a = Ok a'" "managed c a'"
    using ats_run_result [OF assms(4,5,8)] by blast
  note c = controller_redisI [OF assms(1,2)]
  have "temp_clean 1 (members t)"
    using event_handler.deliver_all_inv [OF controller_redis.IgHandler_contract [OF c assms(4)],
        OF events_of_valid [OF assms(5), of Ingresses_source, unfolded source_valid_funs], of s]
      assms(3,7) r(3) by auto
  moreover have "temp_clean 0 (members u)"
    using controller_redis.EpHandler_deliver_all [OF c
        events_of_valid [OF assms(5), of Endpoints_source, unfolded source_valid_funs], of s]
      assms(3,6) r(5) by auto
  ultimately have "temp_clean 1 (members s')" "temp_clean 0 (members s')"
    by (simp_all add: temp_clean_def r(4,6))
  with r a' controller_run_sides [OF r(1) a'(1)] show ?thesis by blast
qed

text \<open>
  C4. The handlers do not disturb each other: whatever events the five informers deliver, in
  whatever order, as long as the objects are valid no handler panics; database 1 is what the ingress
  events alone make of it and database 0 what the endpoints events alone do, no temporary key of
  either is in use, and there still is a manager of the same ingress class.
\<close>

theorem controller_run_correct:
  assumes "redis_server (Redis_of P) members up" "client_open (RedisClient E)" "up s"
    and "range_order (Range_order P)" "valid_events E evs"
    and "temp_clean 0 (members s)" "temp_clean 1 (members s)" "managed c a"
  shows "\<exists>s' a' t u. controller_run P E evs (s, a) = Ok (s', a') \<and> up s' \<and> managed c a'
    \<and> deliver_all (IgHandler (Range_order P) (Redis_of P) E) (events_of Ingresses_source evs) s = Ok t
    \<and> members s' 1 = members t 1 \<and> temp_clean 1 (members s')
    \<and> deliver_all (EpHandler (Redis_of P) E) (events_of Endpoints_source evs) s = Ok u
    \<and> members s' 0 = members u 0 \<and> temp_clean 0 (members s')"
  by (rule controller_run_result [OF assms])

text \<open>An outside made of the in-memory server and disk.\<close>

definition mem_outside :: "(mem_state, mem_disk) outside" where
  "mem_outside = \<lparr>Redis_of = mem_redis, Files_of = mem_files, Ats_of = mem_env, Yaml_of = plain_yaml,
     Nested_of = plain_lib, Range_order = rev, Entry_order = (\<lambda>e. e), Sni_range = rev\<rparr>"

definition ex_events :: "(source \<times> k8s_obj event) list" where
  "ex_events = [(Ingresses_source, AddEvent (IngressObj ig_one)),
     (Endpoints_source, UpdateEvent OtherObj (EndpointsObj ep_example)),
     (ConfigMaps_source, AddEvent (ConfigMapObj cm_example)),
     (Caching_source, AddEvent (ex_policy [])),
     (Sni_source, DeleteEvent (ex_sni_policy [])),
     (Ingresses_source, UpdateEvent (IngressObj ig_one) (IngressObj ig_one_next))]"

lemma ex_events_valid: "valid_events mem_endpoint ex_events"
  using ex_safe
  by (simp add: valid_events_def ex_events_def ep_example_def policy_valid_def ex_policy_def ex_sni_policy_def)

theorem controller_run_correct_witness:
  "\<exists>s' a'. controller_run mem_outside mem_endpoint ex_events (mem_empty, (Some ex_manager, mem_disk_empty)) = Ok (s', a')
    \<and> temp_clean 1 (mem_members s') \<and> temp_clean 0 (mem_members s') \<and> managed [] a'"
proof -
  have r: "redis_server (Redis_of mem_outside) mem_members mem_up" "range_order (Range_order mem_outside)"
    using mem.redis_server_axioms by (simp_all add: mem_outside_def)
  have m: "managed [] (Some ex_manager, mem_disk_empty)" by (simp add: ex_manager_def)
  show ?thesis
    using controller_run_correct [OF r(1), OF mem_open mem_empty_up r(2) ex_events_valid mem_empty_clean
        mem_empty_clean m] by blast
qed

end
