(* ===== verification/Watcher.thy ===== *)
theory Watcher
  imports Controller
begin

text \<open>
  \<open>watcher/watcher.go\<close>: the informers the controller starts. The informers themselves belong to
  client-go, a parameter with three operations: registering a handler, starting an informer in a
  thread of its own, and waiting until informers have a first copy of their objects. The wait may
  report failure (the stop channel was closed) and it may go on forever.
\<close>

section \<open>The informer library as a parameter\<close>

text \<open>
  What an informer watches: a typed resource, or a resource named by group, version and plural; the
  empty namespace is all of them. Every call makes a factory and an informer of its own.
\<close>

datatype resource = EndpointsResource | IngressResource | ConfigMapResource
  | DynamicResource (Group: string) (Version: string) (Resource: string)

record informer =
  Watched :: resource
  InNamespace :: string
  Resync :: int

text \<open>
  \<open>WaitForCacheSync\<close> answers \<open>None\<close> while it has not returned.
\<close>

record ('k, 'w) client_go =
  AddEventHandler :: "informer \<Rightarrow> (k8s_obj, 'w) EventHandler \<Rightarrow> 'k \<Rightarrow> string option \<times> 'k"
  Run :: "informer \<Rightarrow> 'k \<Rightarrow> 'k"
  WaitForCacheSync :: "informer list \<Rightarrow> 'k \<Rightarrow> bool option \<times> 'k"

text \<open>A function that returns, panics, or is still waiting. A returned error is an optional string.\<close>

datatype 'a outcome = Returned 'a | Panicked | Waiting

type_synonym 'k watch = "'k \<Rightarrow> string option outcome \<times> 'k"

definition stop_on_error :: "'k watch \<Rightarrow> 'k watch \<Rightarrow> 'k watch" where
  "stop_on_error p q k = (case p k of (Returned None, k') \<Rightarrow> q k' | result \<Rightarrow> result)"

definition wait_synced :: "('k, 'w) client_go \<Rightarrow> informer list \<Rightarrow> string \<Rightarrow> 'k watch" where
  "wait_synced K informers msg k =
     (case WaitForCacheSync K informers k of
        (None, k') \<Rightarrow> (Waiting, k')
      | (Some synced, k') \<Rightarrow> if \<not> synced then (Returned (Some msg), k') else (Returned None, k'))"

definition sync_message :: "('o, 'w) EventHandler \<Rightarrow> string" where
  "sync_message h = ''Timed out waiting for '' @ GetResourceName h @ '' caches to sync''"

section \<open>Typed informers\<close>

text \<open>
  The type switch on the object; a type without a case leaves the informer nil, and the call of its
  method panics.
\<close>

datatype object_type = EndpointsType | IngressType | ConfigMapType | OtherType

definition NamespaceAll :: string where
  "NamespaceAll = []"

fun all_namespaces_resource :: "object_type \<Rightarrow> resource option" where
  "all_namespaces_resource EndpointsType = Some EndpointsResource"
| "all_namespaces_resource IngressType = Some IngressResource"
| "all_namespaces_resource _ = None"

definition allNamespacesWatchFor :: "('k, 'w) client_go \<Rightarrow> (k8s_obj, 'w) EventHandler \<Rightarrow> object_type
    \<Rightarrow> int \<Rightarrow> 'k watch" where
  "allNamespacesWatchFor K h objType resyncPeriod k =
     (case all_namespaces_resource objType of
        None \<Rightarrow> (Panicked, k)
      | Some res \<Rightarrow>
          (let sharedInformer = \<lparr>Watched = res, InNamespace = NamespaceAll, Resync = resyncPeriod\<rparr>
           in case AddEventHandler K sharedInformer h k of
                (Some err, k1) \<Rightarrow> (Returned (Some err), k1)
              | (None, k1) \<Rightarrow>
                  wait_synced K [sharedInformer] (sync_message h) (Run K sharedInformer k1)))"

fun in_namespaces_resource :: "object_type \<Rightarrow> resource option" where
  "in_namespaces_resource EndpointsType = Some EndpointsResource"
| "in_namespaces_resource IngressType = Some IngressResource"
| "in_namespaces_resource ConfigMapType = Some ConfigMapResource"
| "in_namespaces_resource OtherType = None"

text \<open>
  One informer per namespace; the loop collects the informers to wait for, or ends the function.
\<close>

fun run_in_namespaces :: "('k, 'w) client_go \<Rightarrow> (k8s_obj, 'w) EventHandler \<Rightarrow> object_type \<Rightarrow> int
    \<Rightarrow> string list \<Rightarrow> 'k \<Rightarrow> (string option outcome + informer list) \<times> 'k" where
  "run_in_namespaces K h objType resyncPeriod [] k = (Inr [], k)"
| "run_in_namespaces K h objType resyncPeriod (ns # namespaces) k =
     (case in_namespaces_resource objType of
        None \<Rightarrow> (Inl Panicked, k)
      | Some res \<Rightarrow>
          (let sharedInformer = \<lparr>Watched = res, InNamespace = ns, Resync = resyncPeriod\<rparr>
           in case AddEventHandler K sharedInformer h k of
                (Some err, k1) \<Rightarrow> (Inl (Returned (Some err)), k1)
              | (None, k1) \<Rightarrow>
                  (case run_in_namespaces K h objType resyncPeriod namespaces (Run K sharedInformer k1) of
                     (Inl out, k2) \<Rightarrow> (Inl out, k2)
                   | (Inr informers, k2) \<Rightarrow> (Inr (sharedInformer # informers), k2))))"

definition inNamespacesWatchFor :: "('k, 'w) client_go \<Rightarrow> (k8s_obj, 'w) EventHandler \<Rightarrow> string list
    \<Rightarrow> object_type \<Rightarrow> int \<Rightarrow> 'k watch" where
  "inNamespacesWatchFor K h namespaces objType resyncPeriod k =
     (if length namespaces = 0 then (Panicked, k)
      else (case run_in_namespaces K h objType resyncPeriod namespaces k of
              (Inl out, k') \<Rightarrow> (out, k')
            | (Inr informers, k') \<Rightarrow> wait_synced K informers (sync_message h) k'))"

section \<open>Dynamic informers\<close>

definition dynamic_watch :: "('k, 'w) client_go \<Rightarrow> (k8s_obj, 'w) EventHandler \<Rightarrow> resource \<Rightarrow> int \<Rightarrow> string
    \<Rightarrow> 'k watch" where
  "dynamic_watch K h gvr resyncPeriod msg k =
     (let informer = \<lparr>Watched = gvr, InNamespace = NamespaceAll, Resync = resyncPeriod\<rparr>
      in case AddEventHandler K informer h k of
           (Some err, k1) \<Rightarrow> (Returned (Some (''failed to add event handler: '' @ err)), k1)
         | (None, k1) \<Rightarrow> wait_synced K [informer] msg (Run K informer k1))"

definition caching_gvr :: resource where
  "caching_gvr = DynamicResource ''k8s.trafficserver.apache.com'' ''v1alpha1'' ''atscachingpolicies''"

definition sni_gvr :: resource where
  "sni_gvr = DynamicResource ''trafficserver.apache.org'' ''v1alpha1'' ''atssnipolicies''"

text \<open>\<open>handler_at path\<close> is the handler the constructor makes for the file.\<close>

definition WatchAtsCachingPolicy :: "('k, 'w) client_go \<Rightarrow> (string \<Rightarrow> (k8s_obj, 'w) EventHandler) \<Rightarrow> int
    \<Rightarrow> string \<Rightarrow> 'k watch" where
  "WatchAtsCachingPolicy K handler_at resyncPeriod path =
     dynamic_watch K (handler_at path) caching_gvr resyncPeriod ''failed to sync ATSCachingPolicy informer''"

definition WatchAtsSniPolicy :: "('k, 'w) client_go \<Rightarrow> (string \<Rightarrow> (k8s_obj, 'w) EventHandler) \<Rightarrow> int
    \<Rightarrow> string \<Rightarrow> 'k watch" where
  "WatchAtsSniPolicy K handler_at resyncPeriod path =
     dynamic_watch K (handler_at path) sni_gvr resyncPeriod ''failed to sync ATSSNIPolicy informer''"

section \<open>The watcher\<close>

text \<open>The clients \<open>Cs\<close> and \<open>DynamicClient\<close> and the stop channel are inside the library's state.\<close>

record Watcher =
  ATS_namespace :: string
  ResyncPeriod :: int
  Ep :: Endpoint

definition NewAtsCacheHandler :: "('r, 'x) outside \<Rightarrow> string \<Rightarrow> (k8s_obj, ('r, 'x) world) EventHandler" where
  "NewAtsCacheHandler P path =
     ats_handler (AtsCacheHandler (Range_order P) (Nested_of P) (Files_of P) (Ats_of P) path)"

definition NewAtsSniHandler :: "('r, 'x) outside \<Rightarrow> string \<Rightarrow> (k8s_obj, ('r, 'x) world) EventHandler" where
  "NewAtsSniHandler P path = ats_handler (AtsSniHandler (Sni_range P) (Entry_order P) (Yaml_of P)
     (Nested_of P) (Files_of P) (Ats_of P) path)"

text \<open>
  The namespace of the ConfigMap informer comes from a type assertion to the real manager, which
  panics on any other manager and on nil.
\<close>

definition Watch :: "('k, ('r, 'x) world) client_go \<Rightarrow> ('r, 'x) outside \<Rightarrow> Watcher \<Rightarrow> 'k watch" where
  "Watch K P w =
     (let igHandler = redis_handler (IgHandler (Range_order P) (Redis_of P) (Ep w));
          epHandler = redis_handler (EpHandler (Redis_of P) (Ep w));
          cmHandler = ats_handler (CMHandler (Range_order P) (Ats_of P))
      in stop_on_error (allNamespacesWatchFor K igHandler IngressType (ResyncPeriod w))
        (stop_on_error (allNamespacesWatchFor K epHandler EndpointsType (ResyncPeriod w))
          (\<lambda>k. case ATSManager_of (Ep w) of
                 Some (ATS m) \<Rightarrow>
                   stop_on_error (inNamespacesWatchFor K cmHandler [ATSNamespace m] ConfigMapType (ResyncPeriod w))
                     (stop_on_error (WatchAtsCachingPolicy K (NewAtsCacheHandler P) (ResyncPeriod w) CACHE_PATH)
                       (WatchAtsSniPolicy K (NewAtsSniHandler P) (ResyncPeriod w) SNI_PATH)) k
               | _ \<Rightarrow> (Panicked, k))))"

section \<open>What the library does, in order\<close>

datatype 'w action = Registered informer "(k8s_obj, 'w) EventHandler" | Started informer | Synced "informer list"

text \<open>
  The laws of the library over the list of what it did: a handler is registered unless an error is
  returned, a started informer runs, and a successful wait means that the informers have synced.
\<close>

locale informers =
  fixes K :: "('k, 'w) client_go"
    and trace :: "'k \<Rightarrow> 'w action list"
  assumes registered: "AddEventHandler K i h k = (None, k') \<Longrightarrow> trace k' = trace k @ [Registered i h]"
    and refused: "AddEventHandler K i h k = (Some err, k') \<Longrightarrow> trace k' = trace k"
    and started: "trace (Run K i k) = trace k @ [Started i]"
    and synced: "WaitForCacheSync K is k = (Some True, k') \<Longrightarrow> trace k' = trace k @ [Synced is]"
    and unsynced: "WaitForCacheSync K is k = (r, k') \<Longrightarrow> r \<noteq> Some True \<Longrightarrow> trace k' = trace k"

text \<open>
  \<open>performs trace p acts\<close>: the actions of \<open>p\<close> are a prefix of \<open>acts\<close>, all of them exactly when
  it returns without an error, and it does not panic.
\<close>

definition performs :: "('k \<Rightarrow> 'w action list) \<Rightarrow> 'k watch \<Rightarrow> 'w action list \<Rightarrow> bool" where
  "performs trace p acts \<longleftrightarrow> (\<forall>k. \<exists>tr. trace (snd (p k)) = trace k @ tr \<and> prefix tr acts
     \<and> fst (p k) \<noteq> Panicked \<and> (fst (p k) = Returned None \<longleftrightarrow> tr = acts))"

lemma performsI:
  assumes "\<And>k out k'. p k = (out, k') \<Longrightarrow> \<exists>tr. trace k' = trace k @ tr \<and> prefix tr acts
    \<and> out \<noteq> Panicked \<and> (out = Returned None \<longleftrightarrow> tr = acts)"
  shows "performs trace p acts"
  unfolding performs_def using assms by (metis prod.collapse)

lemma performsD:
  assumes "performs trace p acts" "p k = (out, k')"
  shows "\<exists>tr. trace k' = trace k @ tr \<and> prefix tr acts \<and> out \<noteq> Panicked \<and> (out = Returned None \<longleftrightarrow> tr = acts)"
  using assms unfolding performs_def by (metis fst_conv snd_conv)

lemma prefix_cut: "prefix tr acts \<Longrightarrow> tr \<noteq> acts \<Longrightarrow> prefix tr (acts @ acts') \<and> tr \<noteq> acts @ acts'"
  by (auto simp: prefix_def)

lemma performs_stop_on_error:
  assumes "performs trace p acts" "performs trace q acts'"
  shows "performs trace (stop_on_error p q) (acts @ acts')"
proof (rule performsI)
  fix k out k'
  assume run: "stop_on_error p q k = (out, k')"
  obtain out1 k1 where p: "p k = (out1, k1)" by fastforce
  obtain tr1 where 1: "trace k1 = trace k @ tr1" "prefix tr1 acts" "out1 \<noteq> Panicked"
    "out1 = Returned None \<longleftrightarrow> tr1 = acts"
    using performsD [OF assms(1) p] by blast
  show "\<exists>tr. trace k' = trace k @ tr \<and> prefix tr (acts @ acts')
    \<and> out \<noteq> Panicked \<and> (out = Returned None \<longleftrightarrow> tr = acts @ acts')"
  proof (cases "out1 = Returned None")
    case True
    with run p have "q k1 = (out, k')" by (simp add: stop_on_error_def)
    from performsD [OF assms(2) this] 1 True show ?thesis by auto
  next
    case False
    with run p have "out = out1" "k' = k1"
      by (auto simp: stop_on_error_def split: outcome.splits option.splits)
    with 1 False prefix_cut [of tr1 acts acts'] show ?thesis by auto
  qed
qed

definition stage :: "informer \<Rightarrow> (k8s_obj, 'w) EventHandler \<Rightarrow> 'w action list" where
  "stage i h = [Registered i h, Started i, Synced [i]]"

context informers
begin

lemma wait_synced_trace:
  assumes "wait_synced K is msg k = (out, k')"
  shows "out \<noteq> Panicked \<and> trace k' = trace k @ (if out = Returned None then [Synced is] else [])"
proof -
  obtain r k1 where r: "WaitForCacheSync K is k = (r, k1)" by fastforce
  show ?thesis
  proof (cases "r = Some True")
    case True
    with r assms synced [of "is" k k1] show ?thesis by (auto simp: wait_synced_def)
  next
    case False
    with r assms unsynced [OF r] show ?thesis by (auto simp: wait_synced_def split: option.splits if_splits)
  qed
qed

lemma register_and_run:
  assumes "AddEventHandler K i h k = (None, k1)"
  shows "trace (Run K i k1) = trace k @ [Registered i h, Started i]"
  using registered [OF assms] started [of i k1] by simp

lemma stage_performs:
  assumes "\<And>k. p k = (case AddEventHandler K i h k of
      (Some err, k1) \<Rightarrow> (Returned (Some (e err)), k1)
    | (None, k1) \<Rightarrow> wait_synced K [i] msg (Run K i k1))"
  shows "performs trace p (stage i h)"
proof (rule performsI)
  fix k out k'
  assume p: "p k = (out, k')"
  obtain r k1 where r: "AddEventHandler K i h k = (r, k1)" by fastforce
  show "\<exists>tr. trace k' = trace k @ tr \<and> prefix tr (stage i h)
    \<and> out \<noteq> Panicked \<and> (out = Returned None \<longleftrightarrow> tr = stage i h)"
  proof (cases r)
    case None
    with p r assms have "wait_synced K [i] msg (Run K i k1) = (out, k')" by simp
    from wait_synced_trace [OF this] register_and_run [OF r [unfolded None]] show ?thesis
      by (cases "out = Returned None") (auto simp: stage_def)
  next
    case (Some err)
    with p r assms refused [OF r [unfolded Some]] show ?thesis by (auto simp: stage_def)
  qed
qed

lemma allNamespacesWatchFor_performs:
  assumes "all_namespaces_resource objType = Some res"
  shows "performs trace (allNamespacesWatchFor K h objType resync)
    (stage \<lparr>Watched = res, InNamespace = NamespaceAll, Resync = resync\<rparr> h)"
  by (rule stage_performs [where e = "\<lambda>err. err"]) (simp add: allNamespacesWatchFor_def assms Let_def)

lemma dynamic_watch_performs:
  "performs trace (dynamic_watch K h gvr resync msg)
    (stage \<lparr>Watched = gvr, InNamespace = NamespaceAll, Resync = resync\<rparr> h)"
  by (rule stage_performs [where e = "\<lambda>err. ''failed to add event handler: '' @ err"])
    (simp add: dynamic_watch_def Let_def)

end

definition in_namespaces :: "resource \<Rightarrow> int \<Rightarrow> string list \<Rightarrow> informer list" where
  "in_namespaces res resync namespaces =
     map (\<lambda>ns. \<lparr>Watched = res, InNamespace = ns, Resync = resync\<rparr>) namespaces"

definition start_all :: "(k8s_obj, 'w) EventHandler \<Rightarrow> informer list \<Rightarrow> 'w action list" where
  "start_all h is = concat (map (\<lambda>i. [Registered i h, Started i]) is)"

context informers
begin

lemma run_in_namespaces_trace:
  assumes "in_namespaces_resource objType = Some res"
    and "run_in_namespaces K h objType resync namespaces k = (r, k')"
  shows "case r of
      Inl out \<Rightarrow> (\<exists>err tr. out = Returned (Some err) \<and> trace k' = trace k @ tr
        \<and> prefix tr (start_all h (in_namespaces res resync namespaces)))
    | Inr is \<Rightarrow> is = in_namespaces res resync namespaces \<and> trace k' = trace k @ start_all h is"
  using assms(2)
proof (induction namespaces arbitrary: k r k')
  case Nil
  then show ?case by (auto simp: in_namespaces_def start_all_def)
next
  case (Cons ns namespaces)
  let ?i = "\<lparr>Watched = res, InNamespace = ns, Resync = resync\<rparr>"
  have all: "start_all h (in_namespaces res resync (ns # namespaces)) =
      [Registered ?i h, Started ?i] @ start_all h (in_namespaces res resync namespaces)"
    by (simp add: start_all_def in_namespaces_def)
  obtain e k1 where add: "AddEventHandler K ?i h k = (e, k1)" by fastforce
  show ?case
  proof (cases e)
    case None
    obtain r2 k2 where run: "run_in_namespaces K h objType resync namespaces (Run K ?i k1) = (r2, k2)" by fastforce
    note rest = Cons.IH [OF run] and ri = register_and_run [OF add [unfolded None]]
    show ?thesis
    proof (cases r2)
      case (Inl out)
      with rest ri obtain err tr where tr: "out = Returned (Some err)"
        "trace k2 = trace k @ [Registered ?i h, Started ?i] @ tr"
        "prefix tr (start_all h (in_namespaces res resync namespaces))" by auto
      then have "prefix ([Registered ?i h, Started ?i] @ tr) (start_all h (in_namespaces res resync (ns # namespaces)))"
        unfolding all by simp
      with Cons.prems add None run Inl assms(1) tr(1,2) show ?thesis by auto
    next
      case (Inr infs)
      with rest ri Cons.prems add None run assms(1) all show ?thesis
        by (auto simp: in_namespaces_def start_all_def)
    qed
  next
    case (Some err)
    with Cons.prems add assms(1) refused [OF add [unfolded Some]] show ?thesis by auto
  qed
qed

lemma inNamespacesWatchFor_performs:
  assumes "in_namespaces_resource objType = Some res" "namespaces \<noteq> []"
  shows "performs trace (inNamespacesWatchFor K h namespaces objType resync)
    (start_all h (in_namespaces res resync namespaces) @ [Synced (in_namespaces res resync namespaces)])"
proof (rule performsI)
  let ?is = "in_namespaces res resync namespaces"
  fix k out k'
  assume p: "inNamespacesWatchFor K h namespaces objType resync k = (out, k')"
  obtain r k1 where run: "run_in_namespaces K h objType resync namespaces k = (r, k1)" by fastforce
  note loop = run_in_namespaces_trace [OF assms(1) run]
  show "\<exists>tr. trace k' = trace k @ tr \<and> prefix tr (start_all h ?is @ [Synced ?is])
    \<and> out \<noteq> Panicked \<and> (out = Returned None \<longleftrightarrow> tr = start_all h ?is @ [Synced ?is])"
  proof (cases r)
    case (Inl out1)
    with p run assms(2) have "out = out1" "k' = k1" by (simp_all add: inNamespacesWatchFor_def)
    with loop Inl show ?thesis by (auto simp: prefix_def)
  next
    case (Inr infs)
    with loop have i: "infs = ?is" "trace k1 = trace k @ start_all h ?is" by simp_all
    with p run Inr assms(2) have "wait_synced K ?is (sync_message h) k1 = (out, k')"
      by (simp add: inNamespacesWatchFor_def)
    from wait_synced_trace [OF this] i(2) show ?thesis by (cases "out = Returned None") auto
  qed
qed

end

section \<open>The five stages\<close>

text \<open>The informer of a source; \<open>ns\<close> is the namespace of the controller's own pod.\<close>

fun source_informer :: "int \<Rightarrow> string \<Rightarrow> source \<Rightarrow> informer" where
  "source_informer resync ns Ingresses_source =
     \<lparr>Watched = IngressResource, InNamespace = NamespaceAll, Resync = resync\<rparr>"
| "source_informer resync ns Endpoints_source =
     \<lparr>Watched = EndpointsResource, InNamespace = NamespaceAll, Resync = resync\<rparr>"
| "source_informer resync ns ConfigMaps_source =
     \<lparr>Watched = ConfigMapResource, InNamespace = ns, Resync = resync\<rparr>"
| "source_informer resync ns Caching_source =
     \<lparr>Watched = caching_gvr, InNamespace = NamespaceAll, Resync = resync\<rparr>"
| "source_informer resync ns Sni_source =
     \<lparr>Watched = sni_gvr, InNamespace = NamespaceAll, Resync = resync\<rparr>"

definition source_stage :: "('r, 'x) outside \<Rightarrow> Watcher \<Rightarrow> string \<Rightarrow> source \<Rightarrow> ('r, 'x) world action list" where
  "source_stage P w ns src = stage (source_informer (ResyncPeriod w) ns src) (source_handler P (Ep w) src)"

definition watch_stages :: "('r, 'x) outside \<Rightarrow> Watcher \<Rightarrow> string \<Rightarrow> ('r, 'x) world action list" where
  "watch_stages P w ns = concat (map (source_stage P w ns)
     [Ingresses_source, Endpoints_source, ConfigMaps_source, Caching_source, Sni_source])"

lemma source_handlers:
  "source_handler P E Ingresses_source = redis_handler (IgHandler (Range_order P) (Redis_of P) E)"
  "source_handler P E Endpoints_source = redis_handler (EpHandler (Redis_of P) E)"
  "source_handler P E ConfigMaps_source = ats_handler (CMHandler (Range_order P) (Ats_of P))"
  "source_handler P E Caching_source = NewAtsCacheHandler P CACHE_PATH"
  "source_handler P E Sni_source = NewAtsSniHandler P SNI_PATH"
  by (simp_all add: source_handler_def NewAtsCacheHandler_def NewAtsSniHandler_def)

lemma configmap_stage_performs:
  assumes "informers K trace"
  shows "performs trace (inNamespacesWatchFor K h [ns] ConfigMapType resync)
     (stage \<lparr>Watched = ConfigMapResource, InNamespace = ns, Resync = resync\<rparr> h)"
  using informers.inNamespacesWatchFor_performs [OF assms, of ConfigMapType ConfigMapResource "[ns]" h resync]
  by (simp add: start_all_def in_namespaces_def stage_def)

lemma source_stages_perform:
  assumes "informers K trace"
  shows "performs trace (allNamespacesWatchFor K (source_handler P (Ep w) Ingresses_source) IngressType
      (ResyncPeriod w)) (source_stage P w ns Ingresses_source)"
    and "performs trace (allNamespacesWatchFor K (source_handler P (Ep w) Endpoints_source) EndpointsType
      (ResyncPeriod w)) (source_stage P w ns Endpoints_source)"
    and "performs trace (inNamespacesWatchFor K (source_handler P (Ep w) ConfigMaps_source) [ns]
      ConfigMapType (ResyncPeriod w)) (source_stage P w ns ConfigMaps_source)"
    and "performs trace (WatchAtsCachingPolicy K (NewAtsCacheHandler P) (ResyncPeriod w) CACHE_PATH)
      (source_stage P w ns Caching_source)"
    and "performs trace (WatchAtsSniPolicy K (NewAtsSniHandler P) (ResyncPeriod w) SNI_PATH)
      (source_stage P w ns Sni_source)"
  unfolding source_stage_def source_informer.simps source_handlers(4,5) WatchAtsCachingPolicy_def
    WatchAtsSniPolicy_def
  by (rule informers.allNamespacesWatchFor_performs [OF assms], simp)+
    (rule configmap_stage_performs [OF assms] informers.dynamic_watch_performs [OF assms])+

lemma Watch_performs:
  assumes "informers K trace" "ATSManager_of (Ep w) = Some (ATS m)"
  shows "performs trace (Watch K P w) (watch_stages P w (ATSNamespace m))"
proof -
  have stages: "watch_stages P w ns = source_stage P w ns Ingresses_source @ source_stage P w ns Endpoints_source
      @ source_stage P w ns ConfigMaps_source @ source_stage P w ns Caching_source @ source_stage P w ns Sni_source" for ns
    by (simp add: watch_stages_def)
  show ?thesis
    unfolding Watch_def Let_def assms(2) option.case ats_manager.case stages source_handlers(1,2) [symmetric]
      source_handlers(3) [of P "Ep w", symmetric]
    by (intro performs_stop_on_error source_stages_perform assms(1))
qed

section \<open>Properties\<close>

text \<open>
  C19. Whatever the library answers, \<open>Watch\<close> works through the five resources in a fixed order
  (ingresses, endpoints, ConfigMaps of the controller's namespace, caching policies, SNI policies),
  for each first registering its handler, then starting the informer, then waiting for it; it stops
  at the first error and returns nil exactly when all of them have synced. With the real manager it
  never panics.
\<close>

theorem Watch_in_order:
  assumes "informers K trace" "ATSManager_of (Ep w) = Some (ATS m)"
  shows "\<exists>tr. trace (snd (Watch K P w k)) = trace k @ tr \<and> prefix tr (watch_stages P w (ATSNamespace m))
    \<and> fst (Watch K P w k) \<noteq> Panicked
    \<and> (fst (Watch K P w k) = Returned None \<longleftrightarrow> tr = watch_stages P w (ATSNamespace m))"
  using Watch_performs [OF assms, of P] unfolding performs_def by blast

text \<open>A library that does what it is asked and remembers it, but for the informers it denies.\<close>

definition mem_client_go :: "resource list \<Rightarrow> ('w action list, 'w) client_go" where
  "mem_client_go denied = \<lparr>
     AddEventHandler = (\<lambda>i h k. if Watched i \<in> set denied then (Some ''denied'', k) else (None, k @ [Registered i h])),
     Run = (\<lambda>i k. k @ [Started i]),
     WaitForCacheSync = (\<lambda>is k. (Some True, k @ [Synced is]))\<rparr>"

interpretation mem_informers: informers "mem_client_go denied" "\<lambda>k. k" for denied
  by unfold_locales (auto simp: mem_client_go_def split: if_splits)

definition ex_watcher :: Watcher where
  "ex_watcher = \<lparr>ATS_namespace = ''default'', ResyncPeriod = 0, Ep = mem_endpoint\<rparr>"

lemma ex_watcher_manager:
  "ATSManager_of (Ep ex_watcher) = Some (ATS \<lparr>ATSNamespace = ''default'', IngressClass = []\<rparr>)"
  by (simp add: ex_watcher_def mem_endpoint_def)

theorem Watch_in_order_witness:
  "\<exists>tr. snd (Watch (mem_client_go [sni_gvr]) mem_outside ex_watcher []) = tr
    \<and> prefix tr (watch_stages mem_outside ex_watcher ''default'')
    \<and> fst (Watch (mem_client_go [sni_gvr]) mem_outside ex_watcher []) \<noteq> Panicked"
  using Watch_in_order [OF mem_informers.informers_axioms ex_watcher_manager, of "[sni_gvr]" mem_outside "[]"]
  by auto

definition handlers_of :: "'w action list \<Rightarrow> informer \<Rightarrow> (k8s_obj, 'w) EventHandler list" where
  "handlers_of tr i = List.map_filter (\<lambda>a. case a of Registered j h \<Rightarrow> if j = i then Some h else None | _ \<Rightarrow> None) tr"

lemma wait_synced_total:
  assumes "\<And>is k. fst (WaitForCacheSync K is k) = Some True"
  shows "fst (wait_synced K is msg k) = Returned None"
  using assms [of "is" k] by (cases "WaitForCacheSync K is k") (simp add: wait_synced_def)

lemma stop_on_error_total:
  "\<lbrakk>\<And>k. fst (p k) = Returned None; \<And>k. fst (q k) = Returned None\<rbrakk> \<Longrightarrow> fst (stop_on_error p q k) = Returned None"
proof -
  assume p: "\<And>k. fst (p k) = Returned None" and q: "\<And>k. fst (q k) = Returned None"
  from p [of k] obtain k' where "p k = (Returned None, k')" by (cases "p k") auto
  with q show ?thesis by (simp add: stop_on_error_def)
qed

lemma Watch_started:
  assumes "informers K trace" "ATSManager_of (Ep w) = Some (ATS m)" "trace k = []"
    and "\<And>i h k. fst (AddEventHandler K i h k) = None"
    and "\<And>is k. fst (WaitForCacheSync K is k) = Some True"
  shows "fst (Watch K P w k) = Returned None
    \<and> handlers_of (trace (snd (Watch K P w k))) (source_informer (ResyncPeriod w) (ATSNamespace m) src)
      = [source_handler P (Ep w) src]"
proof -
  have add: "\<exists>k1. AddEventHandler K i h k = (None, k1)" for i h k
    using assms(4) [of i h k] by (metis prod.collapse)
  note wait = wait_synced_total [of K, OF assms(5)]
  have 1: "fst (allNamespacesWatchFor K h IngressType resync k) = Returned None"
    "fst (allNamespacesWatchFor K h EndpointsType resync k) = Returned None"
    "fst (inNamespacesWatchFor K h [ns] ConfigMapType resync k) = Returned None"
    "fst (dynamic_watch K h gvr resync msg k) = Returned None" for h resync ns gvr msg k
    using add [of "\<lparr>Watched = IngressResource, InNamespace = NamespaceAll, Resync = resync\<rparr>" h k]
      add [of "\<lparr>Watched = EndpointsResource, InNamespace = NamespaceAll, Resync = resync\<rparr>" h k]
      add [of "\<lparr>Watched = ConfigMapResource, InNamespace = ns, Resync = resync\<rparr>" h k]
      add [of "\<lparr>Watched = gvr, InNamespace = NamespaceAll, Resync = resync\<rparr>" h k]
    by (auto simp: allNamespacesWatchFor_def inNamespacesWatchFor_def dynamic_watch_def Let_def wait)
  have nil: "fst (Watch K P w k) = Returned None"
    unfolding Watch_def Let_def assms(2) option.case ats_manager.case WatchAtsCachingPolicy_def WatchAtsSniPolicy_def
    by (intro stop_on_error_total 1)
  have "handlers_of (watch_stages P w (ATSNamespace m)) (source_informer (ResyncPeriod w) (ATSNamespace m) src)
      = [source_handler P (Ep w) src]"
    by (cases src) (simp_all add: handlers_of_def watch_stages_def source_stage_def stage_def List.map_filter_def
        caching_gvr_def sni_gvr_def)
  then show ?thesis
    using Watch_performs [OF assms(1,2), of P] nil assms(3) unfolding performs_def
    by (metis append_Nil)
qed

text \<open>
  C1. When the library registers every handler and every informer syncs, \<open>Watch\<close> returns nil, and
  from then on each of the five informers delivers its events to the handler of its resource, and to
  no other.
\<close>

theorem Watch_starts_all:
  assumes "informers K trace" "ATSManager_of (Ep w) = Some (ATS m)" "trace k = []"
    and "\<And>i h k. fst (AddEventHandler K i h k) = None"
    and "\<And>is k. fst (WaitForCacheSync K is k) = Some True"
  shows "fst (Watch K P w k) = Returned None
    \<and> handlers_of (trace (snd (Watch K P w k))) (source_informer (ResyncPeriod w) (ATSNamespace m) src)
      = [source_handler P (Ep w) src]"
  by (rule Watch_started [OF assms])

theorem Watch_starts_all_witness:
  "fst (Watch (mem_client_go []) mem_outside ex_watcher []) = Returned None
    \<and> handlers_of (snd (Watch (mem_client_go []) mem_outside ex_watcher []))
        (source_informer 0 ''default'' Sni_source) = [NewAtsSniHandler mem_outside SNI_PATH]"
proof -
  have all: "fst (AddEventHandler (mem_client_go []) i h k) = None"
    "fst (WaitForCacheSync (mem_client_go []) infs k) = Some True"
    for i infs and h :: "(k8s_obj, (mem_state, mem_disk) world) EventHandler" and k
    by (simp_all add: mem_client_go_def)
  show ?thesis
    using Watch_starts_all [OF mem_informers.informers_axioms ex_watcher_manager _ all,
        of "[]" mem_outside Sni_source]
    by (simp add: source_handlers ex_watcher_def)
qed

lemma wait_not_panicked: "fst (wait_synced K is msg k) \<noteq> Panicked"
  by (auto simp: wait_synced_def split: prod.split option.split)

lemma run_in_namespaces_panics:
  "fst (run_in_namespaces K h objType resync namespaces k) = Inl Panicked
   \<Longrightarrow> in_namespaces_resource objType = None"
proof (induction namespaces arbitrary: k)
  case (Cons ns namespaces)
  show ?case
  proof (rule ccontr)
    assume "in_namespaces_resource objType \<noteq> None"
    then obtain res where res: "in_namespaces_resource objType = Some res" by auto
    let ?i = "\<lparr>Watched = res, InNamespace = ns, Resync = resync\<rparr>"
    obtain e k1 where add: "AddEventHandler K ?i h k = (e, k1)" by fastforce
    with Cons.prems res have "fst (run_in_namespaces K h objType resync namespaces (Run K ?i k1)) = Inl Panicked"
      by (auto simp: Let_def split: option.splits prod.splits sum.splits)
    with Cons.IH res show False by auto
  qed
qed simp

text \<open>
  C33. A watch panics exactly when there is nothing to watch with: for all namespaces when the
  object is of a type the switch does not name (a ConfigMap is one), in given namespaces when
  the list is empty or the type has no case.
\<close>

theorem WatchFor_panics_iff:
  "(fst (allNamespacesWatchFor K h objType resync k) = Panicked
     \<longleftrightarrow> objType = ConfigMapType \<or> objType = OtherType)
   \<and> (fst (inNamespacesWatchFor K h namespaces objType resync k) = Panicked
     \<longleftrightarrow> namespaces = [] \<or> objType = OtherType)"
proof
  show "fst (allNamespacesWatchFor K h objType resync k) = Panicked
      \<longleftrightarrow> objType = ConfigMapType \<or> objType = OtherType"
    by (cases objType) (auto simp: allNamespacesWatchFor_def wait_not_panicked Let_def
        split: prod.split option.split)
  have "namespaces = [] \<or> objType = OtherType \<Longrightarrow>
      fst (inNamespacesWatchFor K h namespaces objType resync k) = Panicked"
    by (cases namespaces) (auto simp: inNamespacesWatchFor_def)
  moreover have "namespaces = [] \<or> objType = OtherType"
    if "fst (inNamespacesWatchFor K h namespaces objType resync k) = Panicked"
  proof (rule ccontr)
    assume n: "\<not> (namespaces = [] \<or> objType = OtherType)"
    then have "in_namespaces_resource objType \<noteq> None" by (cases objType) auto
    with that n run_in_namespaces_panics [of K h objType resync namespaces k] show False
      by (auto simp: inNamespacesWatchFor_def wait_not_panicked split: prod.splits sum.splits)
  qed
  ultimately show "fst (inNamespacesWatchFor K h namespaces objType resync k) = Panicked
      \<longleftrightarrow> namespaces = [] \<or> objType = OtherType" by blast
qed

end
