(* ===== verification/Main_Program.thy ===== *)
theory Main_Program
  imports Watcher
begin

text \<open>
  \<open>main/main.go\<close>: from the flags to the running watcher. The clients of client-go and their
  configuration are parameters; the namespace maps are built in \<open>Namespace\<close>.
\<close>

section \<open>Flags\<close>

record flags =
  apiServer :: string
  useKubeConfig :: bool
  useInClusterConfig :: bool
  kubeconfig :: string
  certFilePath :: string
  keyFilePath :: string
  caFilePath :: string
  namespaces_flag :: string
  ignoreNamespaces_flag :: string
  atsNamespace :: string
  atsIngressClass :: string
  resyncPeriod :: int

definition default_flags :: flags where
  "default_flags = \<lparr>
     apiServer = ''http://notfound.com/'',
     useKubeConfig = False,
     useInClusterConfig = True,
     kubeconfig = ''/usr/local/etc/k8s/k8s.config'',
     certFilePath = ''/etc/pki/tls/certs/kube-router.pem'',
     keyFilePath = ''/etc/pki/tls/private/kube-router-key.pem'',
     caFilePath = ''/etc/pki/tls/certs/ca.pem'',
     namespaces_flag = ALL_namespaces,
     ignoreNamespaces_flag = [],
     atsNamespace = ''default'',
     atsIngressClass = [],
     resyncPeriod = 0\<rparr>"

section \<open>The configuration of the clients\<close>

text \<open>A configuration comes from the library, or is an empty one with four fields set.\<close>

record rest_fields =
  ConfigHost :: string
  CertFile :: string
  KeyFile :: string
  CAFile :: string

datatype 'c rest_config = Library_config 'c | Own_config rest_fields

record 'c client_api =
  BuildConfigFromFlags :: "string \<Rightarrow> string \<Rightarrow> string + 'c"
  InClusterConfig :: "string + 'c"
  NewForConfig :: "'c rest_config \<Rightarrow> string option"
  NewDynamic :: "'c rest_config \<Rightarrow> string option"

definition main_config :: "'c client_api \<Rightarrow> flags \<Rightarrow> string + 'c rest_config" where
  "main_config C f =
     (if useKubeConfig f then
        (case BuildConfigFromFlags C [] (kubeconfig f) of
           Inl err \<Rightarrow> Inl err
         | Inr config \<Rightarrow> Inr (Library_config config))
      else if useInClusterConfig f then
        (case InClusterConfig C of
           Inl err \<Rightarrow> Inl (''failed to create InClusterConfig: '' @ err)
         | Inr config \<Rightarrow> Inr (Library_config config))
      else Inr (Own_config \<lparr>ConfigHost = apiServer f, CertFile = certFilePath f, KeyFile = keyFilePath f,
        CAFile = caFilePath f\<rparr>))"

section \<open>The main function\<close>

text \<open>
  How the start ends: in a panic with a message, while waiting for an informer, or with the watcher
  running, when \<open>main\<close> goes on to wait for signals.
\<close>

datatype startup = Start_panic string | Start_waiting Watcher | Start_running Watcher

text \<open>\<open>log.Panicln\<close> panics with its operands, a blank between two, and a line feed.\<close>

definition Panicln :: "string list \<Rightarrow> string" where
  "Panicln operands = join_with (CHR '' '') operands @ [newline]"

definition main_endpoint :: "(string \<Rightarrow> string) \<Rightarrow> flags \<Rightarrow> Client \<Rightarrow> Endpoint" where
  "main_endpoint U f rClient = \<lparr>RedisClient = rClient,
     ATSManager_of = Some (ATS \<lparr>ATSNamespace = atsNamespace f, IngressClass = atsIngressClass f\<rparr>),
     NsManager_of = main_nsManager U (namespaces_flag f) (ignoreNamespaces_flag f)\<rparr>"

definition main_watcher :: "flags \<Rightarrow> Endpoint \<Rightarrow> Watcher" where
  "main_watcher f E = \<lparr>ATS_namespace = atsNamespace f, ResyncPeriod = resyncPeriod f, Ep = E\<rparr>"

definition main_watch :: "('k, ('r, 'x) world) client_go \<Rightarrow> ('r, 'x) outside \<Rightarrow> Watcher \<Rightarrow> 'k \<Rightarrow> startup \<times> 'k" where
  "main_watch K P watcher k =
     (case Watch K P watcher k of
        (Returned None, k') \<Rightarrow> (Start_running watcher, k')
      | (Returned (Some err), k') \<Rightarrow> (Start_panic (Panicln [''Error received from watcher.Watch() :'', err]), k')
      | (Panicked, k') \<Rightarrow> (Start_panic ''panic'', k')
      | (Waiting, k') \<Rightarrow> (Start_waiting watcher, k'))"

text \<open>
  The Redis state of the result is the one that \<open>Init\<close> left, on which the handlers start. The informers
  run the handlers in goroutines of their own from their registration on, so that by the time \<open>main\<close> waits for
  signals the state of Redis is what \<open>controller_run\<close> makes of this one with the events delivered so far.
\<close>

definition main_start :: "'c client_api \<Rightarrow> ('k, ('r, 'x) world) client_go \<Rightarrow> ('r, 'x) outside
    \<Rightarrow> (string \<Rightarrow> string) \<Rightarrow> flags \<Rightarrow> 'r \<times> 'k \<Rightarrow> startup \<times> 'r \<times> 'k" where
  "main_start C K P U f = (\<lambda>(s, k).
     if atsNamespace f = [] then (Start_panic (Panicln [''Not all required args given.'']), s, k)
     else
       (case main_config C f of
          Inl err \<Rightarrow> (Start_panic (Panicln [err]), s, k)
        | Inr config \<Rightarrow>
            (case NewForConfig C config of
               Some err \<Rightarrow> (Start_panic (Panicln [err]), s, k)
             | None \<Rightarrow>
                 (case NewDynamic C config of
                    Some err \<Rightarrow> (Start_panic (Panicln [err]), s, k)
                  | None \<Rightarrow>
                      (case Init (Redis_of P) s of
                         (None, s') \<Rightarrow> (Start_panic ''panic'', s', k)
                       | (Some (Inl err), s') \<Rightarrow> (Start_panic (Panicln [''Redis Error: '', err]), s', k)
                       | (Some (Inr rClient), s') \<Rightarrow>
                           (case main_watch K P (main_watcher f (main_endpoint U f rClient)) k of
                              (out, k') \<Rightarrow> (out, s', k')))))))"

text \<open>
  The loop over the signals: the first one closes the stop channel and exits with status 0; without
  a signal \<open>main\<close> waits.
\<close>

datatype exit_state = Running | Exited (stop_closed: bool) (status: int)

fun main_signals :: "'sig list \<Rightarrow> exit_state" where
  "main_signals [] = Running"
| "main_signals (s # signals) = Exited True 0"

end
