(* ===== verification/Router.thy ===== *)
theory Router
  imports Ingress_Runs
begin

text \<open>
  \<open>pluginats/connect_redis.lua\<close>: what the proxy does with the tables. For each request the plugin
  looks for a routing key in database 1, picks an address of the service in database 0, and rewrites
  the request. The Lua client of Redis, the snippets it runs and the proxy's request interface are
  parameters; a Lua table used as a list is a list, \<open>nil\<close> is \<open>None\<close>, log lines are left out.
\<close>

section \<open>Lua strings\<close>

text \<open>Positions count from 1. \<open>string.find(s, c, init)\<close> for one character, \<open>string.sub(s, i, j)\<close>.\<close>

fun find_from :: "nat \<Rightarrow> char \<Rightarrow> string \<Rightarrow> nat option" where
  "find_from pos c [] = None"
| "find_from pos c (x # xs) = (if x = c then Some pos else find_from (pos + 1) c xs)"

definition string_find :: "string \<Rightarrow> char \<Rightarrow> nat \<Rightarrow> nat option" where
  "string_find s c init = find_from init c (drop (init - 1) s)"

definition string_sub :: "string \<Rightarrow> nat \<Rightarrow> nat \<Rightarrow> string" where
  "string_sub s i j = drop (i - 1) (take j s)"

lemma find_from_Some:
  "find_from pos c s = Some j \<Longrightarrow> pos \<le> j \<and> j < pos + length s \<and> s ! (j - pos) = c
    \<and> (\<forall>i. pos \<le> i \<and> i < j \<longrightarrow> s ! (i - pos) \<noteq> c)"
proof (induction s arbitrary: pos)
  case (Cons x s)
  show ?case
  proof (cases "x = c")
    case False
    with Cons have j: "find_from (pos + 1) c s = Some j" by simp
    from Cons.IH [OF j] have "pos + 1 \<le> j" "j < pos + 1 + length s" "s ! (j - (pos + 1)) = c"
      "\<forall>i. pos + 1 \<le> i \<and> i < j \<longrightarrow> s ! (i - (pos + 1)) \<noteq> c" by blast+
    moreover have nth: "(x # s) ! (i - pos) = s ! (i - (pos + 1))" if "pos < i" for i
      using that by (simp add: nth_Cons')
    moreover have "(x # s) ! (i - pos) \<noteq> c" if "pos \<le> i" "i < j" for i
    proof (cases "i = pos")
      case True
      with False show ?thesis by simp
    next
      case False
      with that have "pos < i" "pos + 1 \<le> i" by simp_all
      with that(2) calculation(4) nth show ?thesis by simp
    qed
    ultimately show ?thesis by simp
  qed (use Cons.prems in auto)
qed simp

lemma find_from_None: "find_from pos c s = None \<longleftrightarrow> c \<notin> set s"
  by (induction s arbitrary: pos) auto

lemma string_find_Some:
  assumes "string_find s c (i + 1) = Some j"
  shows "i < j" "j \<le> length s" "s ! (j - 1) = c" "\<And>m. i < m \<Longrightarrow> m < j \<Longrightarrow> s ! (m - 1) \<noteq> c"
proof -
  note j = find_from_Some [OF assms [unfolded string_find_def]]
  then show "i < j" "j \<le> length s" by auto
  with j show "s ! (j - 1) = c" by (auto simp: nth_drop)
  show "s ! (m - 1) \<noteq> c" if "i < m" "m < j" for m
    using j that \<open>j \<le> length s\<close> by (auto simp: nth_drop dest!: spec [of _ m])
qed

lemma string_find_progress: "string_find s c (i + 1) = Some j \<Longrightarrow> length s - j < length s - i"
  using string_find_Some(1,2) [of s c i j] by (intro diff_less_mono2) simp_all

lemma string_find_None:
  "string_find s c (i + 1) = None \<longleftrightarrow> (\<forall>j. i < j \<and> j \<le> length s \<longrightarrow> s ! (j - 1) \<noteq> c)"
proof -
  have "string_find s c (i + 1) = None \<longleftrightarrow> (\<forall>m < length s - i. s ! (i + m) \<noteq> c)"
    by (auto simp: string_find_def find_from_None in_set_conv_nth)
  also have "\<dots> \<longleftrightarrow> (\<forall>j. i < j \<and> j \<le> length s \<longrightarrow> s ! (j - 1) \<noteq> c)"
  proof safe
    fix j
    assume "\<forall>m < length s - i. s ! (i + m) \<noteq> s ! (j - 1)" "i < j" "j \<le> length s"
    then show False by (auto dest!: spec [of _ "j - 1 - i"])
  next
    fix m
    assume "\<forall>j. i < j \<and> j \<le> length s \<longrightarrow> s ! (j - 1) \<noteq> s ! (i + m)" "m < length s - i"
    then show False by (auto dest!: spec [of _ "i + m + 1"])
  qed
  finally show ?thesis .
qed

section \<open>The loop over the slashes\<close>

text \<open>
  The loop that collects the positions of the slashes ends: each round starts behind the last one.
\<close>

function find_slashes :: "string \<Rightarrow> nat \<Rightarrow> nat list" where
  "find_slashes req_path i =
     (case string_find req_path (CHR ''/'') (i + 1) of
        None \<Rightarrow> []
      | Some j \<Rightarrow> j # find_slashes req_path j)"
  by pat_completeness auto

termination
  by (relation "measure (\<lambda>(req_path, i). length req_path - i)")
    (auto dest: string_find_progress)

declare find_slashes.simps [simp del]

lemma find_slashes_sorted:
  "sorted_wrt (<) (find_slashes s i)
    \<and> set (find_slashes s i) = {j. i < j \<and> j \<le> length s \<and> s ! (j - 1) = CHR ''/''}"
proof (induction s i rule: find_slashes.induct)
  case (1 s i)
  show ?case
  proof (cases "string_find s (CHR ''/'') (i + 1)")
    case None
    then have "find_slashes s i = []" by (subst find_slashes.simps) simp
    with None show ?thesis by (auto simp: string_find_None)
  next
    case (Some j)
    note IH = "1.IH" [OF Some] and j = string_find_Some [OF Some]
    have "find_slashes s i = j # find_slashes s j" by (subst find_slashes.simps) (simp add: Some)
    moreover have "{m. i < m \<and> m \<le> length s \<and> s ! (m - 1) = CHR ''/''} =
        insert j {m. j < m \<and> m \<le> length s \<and> s ! (m - 1) = CHR ''/''}"
      using j by (auto simp: not_less le_less) (metis nat_neq_iff)
    ultimately show ?thesis using IH by auto
  qed
qed

section \<open>The Lua client of Redis\<close>

text \<open>
  The commands the plugin sends. \<open>client:select(d)\<close> is a command of its own, which makes \<open>d\<close> the
  database of the commands after it; the plugin does not look at its answer.
\<close>

record 's lua_redis =
  lua_ping :: "'s \<Rightarrow> bool \<times> 's"
  lua_select :: "nat \<Rightarrow> 's \<Rightarrow> 's"
  lua_smembers :: "string \<Rightarrow> 's \<Rightarrow> string list option \<times> 's"
  lua_srandmember :: "string \<Rightarrow> 's \<Rightarrow> string option \<times> 's"

text \<open>The plugin selects a database before each of its reads.\<close>

definition select_smembers :: "'s lua_redis \<Rightarrow> nat \<Rightarrow> string \<Rightarrow> 's \<Rightarrow> string list option \<times> 's" where
  "select_smembers Q d k s = lua_smembers Q k (lua_select Q d s)"

definition select_srandmember :: "'s lua_redis \<Rightarrow> nat \<Rightarrow> string \<Rightarrow> 's \<Rightarrow> string option \<times> 's" where
  "select_srandmember Q d k s = lua_srandmember Q k (lua_select Q d s)"

text \<open>
  What the plugin relies on: reads after a selection are from the selected database and do not change
  the sets. The second contract adds that the list of a set's members has no duplicates.
\<close>

locale lua_client =
  fixes Q :: "'s lua_redis"
    and members :: "'s \<Rightarrow> dbs"
    and up :: "'s \<Rightarrow> bool"
  assumes lua_ping: "up s \<Longrightarrow> \<exists>s'. lua_ping Q s = (True, s') \<and> up s' \<and> members s' = members s"
    and smembers: "up s \<Longrightarrow> \<exists>vs s'. select_smembers Q d k s = (Some vs, s') \<and> up s' \<and> members s' = members s
      \<and> set vs = members s d k"
    and srandmember: "up s \<Longrightarrow> \<exists>r s'. select_srandmember Q d k s = (r, s') \<and> up s' \<and> members s' = members s
      \<and> (case r of None \<Rightarrow> members s d k = {} | Some v \<Rightarrow> v \<in> members s d k)"

locale lua_sets = lua_client Q members up
  for Q :: "'s lua_redis" and members :: "'s \<Rightarrow> dbs" and up :: "'s \<Rightarrow> bool" +
  assumes smembers_distinct: "up s \<Longrightarrow> select_smembers Q d k s = (Some vs, s') \<Longrightarrow> distinct vs"

section \<open>Looking for a routing key\<close>

type_synonym 's lookup = "'s \<Rightarrow> string list option \<times> 's"

text \<open>\<open>svcs == nil or #svcs == 0\<close>\<close>

definition no_svcs :: "string list option \<Rightarrow> bool" where
  "no_svcs svcs \<longleftrightarrow> (case svcs of None \<Rightarrow> True | Some l \<Rightarrow> length l = 0)"

definition exact_key :: "string \<Rightarrow> string \<Rightarrow> string \<Rightarrow> string" where
  "exact_key req_scheme req_host req_path = ''E+'' @ req_scheme @ ''://'' @ req_host @ req_path"

definition prefix_key :: "string \<Rightarrow> string \<Rightarrow> string \<Rightarrow> string" where
  "prefix_key req_scheme req_host req_path = ''P+'' @ req_scheme @ ''://'' @ req_host @ req_path"

definition check_path_exact_match :: "'s lua_redis \<Rightarrow> string \<Rightarrow> string \<Rightarrow> string \<Rightarrow> 's lookup" where
  "check_path_exact_match Q req_scheme req_host req_path =
     select_smembers Q 1 (exact_key req_scheme req_host req_path)"

text \<open>The loop from the last slash to the first: the path up to the slash, then without it.\<close>

fun check_slashes :: "'s lua_redis \<Rightarrow> string \<Rightarrow> string \<Rightarrow> string \<Rightarrow> nat list \<Rightarrow> 's lookup" where
  "check_slashes Q req_scheme req_host req_path [] s = (None, s)"
| "check_slashes Q req_scheme req_host req_path (pathindex # t) s =
     (case select_smembers Q 1 (prefix_key req_scheme req_host (string_sub req_path 1 pathindex)) s of
        (svcs, s1) \<Rightarrow>
          if \<not> no_svcs svcs then (svcs, s1)
          else if pathindex > 1 then
            (case select_smembers Q 1 (prefix_key req_scheme req_host (string_sub req_path 1 (pathindex - 1))) s1 of
               (svcs', s2) \<Rightarrow>
                 if \<not> no_svcs svcs' then (svcs', s2)
                 else check_slashes Q req_scheme req_host req_path t s2)
          else check_slashes Q req_scheme req_host req_path t s1)"

definition check_path_prefix_match :: "'s lua_redis \<Rightarrow> string \<Rightarrow> string \<Rightarrow> string \<Rightarrow> 's lookup" where
  "check_path_prefix_match Q req_scheme req_host req_path s =
     (case select_smembers Q 1 (prefix_key req_scheme req_host req_path) s of
        (svcs, s1) \<Rightarrow>
          if \<not> no_svcs svcs then (svcs, s1)
          else check_slashes Q req_scheme req_host req_path (rev (find_slashes req_path 0)) s1)"

definition get_wildcard_domain :: "string \<Rightarrow> string option" where
  "get_wildcard_domain req_host =
     (case string_find req_host (CHR ''.'') 1 of
        None \<Rightarrow> None
      | Some pos \<Rightarrow> Some (''*'' @ string_sub req_host pos (length req_host)))"

text \<open>One more lookup, tried only when the ones before have found nothing.\<close>

definition or_else :: "'s lookup \<Rightarrow> 's lookup \<Rightarrow> 's lookup" where
  "or_else p q s = (case p s of (svcs, s1) \<Rightarrow> if no_svcs svcs then q s1 else (svcs, s1))"

definition or_else_wildcard :: "'s lookup \<Rightarrow> string option \<Rightarrow> (string \<Rightarrow> 's lookup) \<Rightarrow> 's lookup" where
  "or_else_wildcard p host q s = (case p s of (svcs, s1) \<Rightarrow>
     if no_svcs svcs then (case host of None \<Rightarrow> (svcs, s1) | Some h \<Rightarrow> q h s1) else (svcs, s1))"

definition lookup_svcs :: "'s lua_redis \<Rightarrow> string \<Rightarrow> string \<Rightarrow> string \<Rightarrow> 's lookup" where
  "lookup_svcs Q req_scheme req_host req_path =
     (let wildcard_req_host = get_wildcard_domain req_host;
          svcs1 = check_path_exact_match Q req_scheme req_host req_path;
          svcs2 = or_else svcs1 (check_path_prefix_match Q req_scheme req_host req_path);
          svcs3 = or_else_wildcard svcs2 wildcard_req_host (\<lambda>h. check_path_exact_match Q req_scheme h req_path);
          svcs4 = or_else_wildcard svcs3 wildcard_req_host (\<lambda>h. check_path_prefix_match Q req_scheme h req_path);
          svcs5 = or_else svcs4 (check_path_exact_match Q req_scheme ''*'' req_path)
      in or_else svcs5 (check_path_prefix_match Q req_scheme ''*'' req_path))"

section \<open>Rewriting the request\<close>

text \<open>
  What \<open>ts.client_request\<close> and \<open>ts.http\<close> hold; a getter that has nothing to return gives nil.
\<close>

record client_request =
  url_scheme :: "string option"
  url_host :: "string option"
  url_port :: "string option"
  uri :: "string option"
  http_version :: string
  pristine_url :: string
  cache_url :: "string option"
  skip_remapping :: bool

definition ipport_split :: "string \<Rightarrow> char \<Rightarrow> string list" where
  "ipport_split s delimiter = (if s \<noteq> [] then split_on delimiter s else [])"

text \<open>
  The two loops over the members of the key; the first takes the services, the second the snippets.
  \<open>return 0\<close> is \<open>Return0\<close>, falling off the end of the hook is \<open>Finished\<close>; running a snippet is
  the parameter \<open>run_snippet\<close>, which is \<open>None\<close> when the text does not load or the code fails.
\<close>

datatype hook = Return0 | Finished | Lua_error

definition is_snippet :: "string \<Rightarrow> bool" where
  "is_snippet svc \<longleftrightarrow> string_sub svc 1 1 = ''$''"

definition rewrite :: "string list \<Rightarrow> string \<Rightarrow> client_request \<Rightarrow> client_request" where
  "rewrite values req_path r = r\<lparr>cache_url := Some (pristine_url r), skip_remapping := True,
     url_scheme := Some (values ! 2), uri := Some req_path, url_host := Some (values ! 0),
     url_port := Some (values ! 1)\<rparr>"

fun route_loop :: "'s lua_redis \<Rightarrow> string \<Rightarrow> string list \<Rightarrow> client_request \<Rightarrow> 's
    \<Rightarrow> hook \<times> client_request \<times> 's" where
  "route_loop Q req_path [] r s = (Finished, r, s)"
| "route_loop Q req_path (svc # svcs) r s =
     (if \<not> is_snippet svc then
        (case select_srandmember Q 0 svc s of
           (None, s1) \<Rightarrow> (Return0, r, s1)
         | (Some ipport, s1) \<Rightarrow>
             (let values = ipport_split ipport (CHR ''#'') in
              if length values \<noteq> 3 then (Return0, r, s1)
              else route_loop Q req_path svcs (rewrite values req_path r) s1))
      else route_loop Q req_path svcs r s)"

fun snippet_loop :: "'s lua_redis \<Rightarrow> (string \<Rightarrow> client_request \<Rightarrow> client_request option) \<Rightarrow> string list
    \<Rightarrow> client_request \<Rightarrow> 's \<Rightarrow> hook \<times> client_request \<times> 's" where
  "snippet_loop Q run_snippet [] r s = (Finished, r, s)"
| "snippet_loop Q run_snippet (svc # svcs) r s =
     (if is_snippet svc then
        (case select_smembers Q 1 svc s of
           (None, s1) \<Rightarrow> (Return0, r, s1)
         | (Some snippets, s1) \<Rightarrow>
             (case snippets of
                [] \<Rightarrow> (Return0, r, s1)
              | snippet # _ \<Rightarrow>
                  (case run_snippet snippet r of
                     None \<Rightarrow> (Lua_error, r, s1)
                   | Some r' \<Rightarrow> snippet_loop Q run_snippet svcs r' s1)))
      else snippet_loop Q run_snippet svcs r s)"

definition or_default :: "string option \<Rightarrow> string \<Rightarrow> string" where
  "or_default v d = (case v of None \<Rightarrow> d | Some x \<Rightarrow> x)"

definition do_global_read_request :: "'s lua_redis \<Rightarrow> (string \<Rightarrow> client_request \<Rightarrow> client_request option) \<Rightarrow> bool
    \<Rightarrow> client_request \<Rightarrow> 's \<Rightarrow> hook \<times> client_request \<times> 's" where
  "do_global_read_request Q run_snippet snippet_enabled r s =
     (case lua_ping Q s of
        (False, s1) \<Rightarrow> (Return0, r, s1)
      | (True, s1) \<Rightarrow>
          (let req_scheme = or_default (url_scheme r) ''http'';
               req_host = or_default (url_host r) [];
               req_path = or_default (uri r) [];
               r1 = (if http_version r = ''1.1'' \<and> req_scheme = ''http'' then r\<lparr>url_host := Some req_host\<rparr> else r)
           in case lookup_svcs Q req_scheme req_host req_path s1 of
                (svcs, s2) \<Rightarrow>
                  if no_svcs svcs then (Return0, r1, s2)
                  else
                    (case route_loop Q req_path (the svcs) r1 s2 of
                       (Finished, r2, s3) \<Rightarrow>
                         if snippet_enabled then snippet_loop Q run_snippet (the svcs) r2 s3
                         else (Finished, r2, s3)
                     | stopped \<Rightarrow> stopped)))"

end
