(* ===== verification/Router_Properties.thy ===== *)
theory Router_Properties
  imports Router
begin

text \<open>
  What the plugin's lookup computes: the first routing key with members in a list of candidates, and
  what the candidates for a path are; then how a request is rewritten from the tables the controller
  maintains.
\<close>

section \<open>The candidates\<close>

definition slash_candidates :: "string \<Rightarrow> nat \<Rightarrow> string list" where
  "slash_candidates path p = string_sub path 1 p # (if p > 1 then [string_sub path 1 (p - 1)] else [])"

definition prefix_candidates :: "string \<Rightarrow> string list" where
  "prefix_candidates req_path =
     req_path # concat (map (slash_candidates req_path) (rev (find_slashes req_path 0)))"

definition host_candidates :: "string \<Rightarrow> string \<Rightarrow> string \<Rightarrow> string list" where
  "host_candidates req_scheme req_path host =
     exact_key req_scheme host req_path # map (prefix_key req_scheme host) (prefix_candidates req_path)"

definition route_candidates :: "string \<Rightarrow> string \<Rightarrow> string \<Rightarrow> string list" where
  "route_candidates req_scheme req_host req_path = host_candidates req_scheme req_path req_host
     @ (case get_wildcard_domain req_host of None \<Rightarrow> [] | Some h \<Rightarrow> host_candidates req_scheme req_path h)
     @ host_candidates req_scheme req_path ''*''"

text \<open>
  The abstract lookup \<open>first_with D ks\<close>; \<open>finds\<close> says that a program computes it.
\<close>

definition first_with :: "dbs \<Rightarrow> string list \<Rightarrow> string option" where
  "first_with D ks = List.find (\<lambda>k. D 1 k \<noteq> {}) ks"

definition finds :: "('s \<Rightarrow> dbs) \<Rightarrow> ('s \<Rightarrow> bool) \<Rightarrow> 's lookup \<Rightarrow> string list \<Rightarrow> bool" where
  "finds members up p ks \<longleftrightarrow> (\<forall>s. up s \<longrightarrow> (\<exists>svcs s'. p s = (svcs, s') \<and> up s' \<and> members s' = members s
     \<and> (case first_with (members s) ks of
          None \<Rightarrow> no_svcs svcs
        | Some k \<Rightarrow> \<not> no_svcs svcs \<and> set (the svcs) = members s 1 k)))"

lemma findsD:
  "finds members up p ks \<Longrightarrow> up s \<Longrightarrow> \<exists>svcs s'. p s = (svcs, s') \<and> up s' \<and> members s' = members s
     \<and> (case first_with (members s) ks of
          None \<Rightarrow> no_svcs svcs
        | Some k \<Rightarrow> \<not> no_svcs svcs \<and> set (the svcs) = members s 1 k)"
  by (simp add: finds_def)

lemma first_with_append:
  "first_with D (ks @ ls) = (case first_with D ks of None \<Rightarrow> first_with D ls | Some k \<Rightarrow> Some k)"
  by (induction ks) (auto simp: first_with_def)

lemma finds_or_else:
  assumes "finds members up p ks" "finds members up q ls"
  shows "finds members up (or_else p q) (ks @ ls)"
  unfolding finds_def
proof (intro allI impI)
  fix s
  assume "up s"
  then obtain svcs s1 where 1: "p s = (svcs, s1)" "up s1" "members s1 = members s"
    "case first_with (members s) ks of None \<Rightarrow> no_svcs svcs
      | Some k \<Rightarrow> \<not> no_svcs svcs \<and> set (the svcs) = members s 1 k"
    using findsD [OF assms(1)] by blast
  show "\<exists>svcs s'. or_else p q s = (svcs, s') \<and> up s' \<and> members s' = members s
     \<and> (case first_with (members s) (ks @ ls) of None \<Rightarrow> no_svcs svcs
        | Some k \<Rightarrow> \<not> no_svcs svcs \<and> set (the svcs) = members s 1 k)"
  proof (cases "first_with (members s) ks")
    case None
    with 1 findsD [OF assms(2) 1(2), unfolded 1(3)] show ?thesis by (simp add: or_else_def first_with_append)
  next
    case (Some k)
    with 1 show ?thesis by (simp add: or_else_def first_with_append)
  qed
qed

lemma or_else_wildcard_alt:
  "or_else_wildcard p host q = (case host of None \<Rightarrow> p | Some h \<Rightarrow> or_else p (q h))"
  by (auto simp: or_else_wildcard_def or_else_def fun_eq_iff split: option.splits prod.splits)

context lua_client
begin

lemma finds_smembers: "finds members up (select_smembers Q 1 k) [k]"
  unfolding finds_def
proof (intro allI impI)
  fix s
  assume "up s"
  then obtain vs s' where "select_smembers Q 1 k s = (Some vs, s')" "up s'" "members s' = members s"
    "set vs = members s 1 k"
    using smembers by blast
  then show "\<exists>svcs s'. select_smembers Q 1 k s = (svcs, s') \<and> up s' \<and> members s' = members s
     \<and> (case first_with (members s) [k] of None \<Rightarrow> no_svcs svcs
        | Some k \<Rightarrow> \<not> no_svcs svcs \<and> set (the svcs) = members s 1 k)"
    by (cases vs) (auto simp: first_with_def no_svcs_def)
qed

lemma finds_none: "finds members up (\<lambda>s. (None, s)) []"
  by (simp add: finds_def first_with_def no_svcs_def)

text \<open>The loop over the slashes is a chain of alternatives.\<close>

lemma check_slashes_Cons:
  "check_slashes Q sch host path (p # t) = or_else (select_smembers Q 1 (prefix_key sch host (string_sub path 1 p)))
     (if p > 1 then or_else (select_smembers Q 1 (prefix_key sch host (string_sub path 1 (p - 1))))
        (check_slashes Q sch host path t) else check_slashes Q sch host path t)"
  by (auto simp: or_else_def fun_eq_iff split: prod.split)

lemma finds_check_slashes:
  "finds members up (check_slashes Q sch host path ps)
    (map (prefix_key sch host) (concat (map (slash_candidates path) ps)))"
proof (induction ps)
  case Nil
  have "check_slashes Q sch host path [] = (\<lambda>s. (None, s))" by (simp add: fun_eq_iff)
  with finds_none show ?case by simp
next
  case (Cons p ps)
  show ?case
    unfolding check_slashes_Cons
    using finds_or_else [OF finds_smembers finds_or_else [OF finds_smembers Cons.IH],
        of "prefix_key sch host (string_sub path 1 p)" "prefix_key sch host (string_sub path 1 (p - 1))"]
      finds_or_else [OF finds_smembers Cons.IH, of "prefix_key sch host (string_sub path 1 p)"]
    by (simp add: slash_candidates_def)
qed

lemma prefix_match_or_else:
  "check_path_prefix_match Q sch host path = or_else (select_smembers Q 1 (prefix_key sch host path))
      (check_slashes Q sch host path (rev (find_slashes path 0)))"
  by (auto simp: check_path_prefix_match_def or_else_def fun_eq_iff split: prod.split)

lemma finds_prefix_match:
  "finds members up (check_path_prefix_match Q sch host path) (map (prefix_key sch host) (prefix_candidates path))"
proof -
  show ?thesis
    unfolding prefix_match_or_else
    using finds_or_else [OF finds_smembers finds_check_slashes, of "prefix_key sch host path" sch host path]
    by (simp add: prefix_candidates_def)
qed

lemma finds_exact_match: "finds members up (check_path_exact_match Q sch host path) [exact_key sch host path]"
  unfolding check_path_exact_match_def by (rule finds_smembers)

lemma finds_lookup: "finds members up (lookup_svcs Q sch host path) (route_candidates sch host path)"
proof -
  let ?e = "\<lambda>h. check_path_exact_match Q sch h path" and ?p = "\<lambda>h. check_path_prefix_match Q sch h path"
  note h = finds_or_else [OF _ finds_exact_match [of sch _ path]] finds_or_else [OF _ finds_prefix_match [of sch _ path]]
  have first: "finds members up (or_else (?e host) (?p host)) (host_candidates sch path host)"
    using h(2) [OF finds_exact_match] by (simp add: host_candidates_def)
  have more: "finds members up (or_else (or_else p (?e h)) (?p h)) (ks @ host_candidates sch path h)"
    if "finds members up p ks" for p ks h
    using h(2) [OF h(1) [OF that]] by (simp add: host_candidates_def)
  show ?thesis
  proof (cases "get_wildcard_domain host")
    case None
    with more [OF first, of "''*''"] show ?thesis
      by (simp add: lookup_svcs_def Let_def or_else_wildcard_alt route_candidates_def)
  next
    case (Some w)
    with more [OF more [OF first, of w], of "''*''"] show ?thesis
      by (simp add: lookup_svcs_def Let_def or_else_wildcard_alt route_candidates_def)
  qed
qed

end

text \<open>A list of services that a lookup gives is one that the client has read.\<close>

definition yields :: "('s \<Rightarrow> bool) \<Rightarrow> (string list \<Rightarrow> bool) \<Rightarrow> 's lookup \<Rightarrow> bool" where
  "yields up P p \<longleftrightarrow> (\<forall>s svcs s'. up s \<longrightarrow> p s = (svcs, s') \<longrightarrow>
     up s' \<and> (case svcs of None \<Rightarrow> True | Some l \<Rightarrow> P l))"

lemma yieldsD: "yields up P p \<Longrightarrow> up s \<Longrightarrow> p s = (Some l, s') \<Longrightarrow> P l"
  unfolding yields_def by fastforce

lemma yields_or_else:
  assumes "yields up P p" "yields up P q"
  shows "yields up P (or_else p q)"
  unfolding yields_def
proof (intro allI impI)
  fix s svcs s'
  assume s: "up s" and r: "or_else p q s = (svcs, s')"
  obtain l s1 where 1: "p s = (l, s1)" by (cases "p s")
  then have "up s1" "case l of None \<Rightarrow> True | Some l \<Rightarrow> P l" using assms(1) s unfolding yields_def by blast+
  with assms(2) r 1 show "up s' \<and> (case svcs of None \<Rightarrow> True | Some l \<Rightarrow> P l)"
    unfolding yields_def or_else_def by (cases "no_svcs l") simp_all
qed

lemma yields_wildcard:
  "yields up P p \<Longrightarrow> (\<And>h. yields up P (q h)) \<Longrightarrow> yields up P (or_else_wildcard p host q)"
  unfolding or_else_wildcard_alt by (cases host) (simp_all add: yields_or_else)

context lua_sets
begin

lemma yields_smembers: "yields up distinct (select_smembers Q d k)"
  unfolding yields_def
proof (intro allI impI)
  fix s svcs s'
  assume "up s" "select_smembers Q d k s = (svcs, s')"
  then show "up s' \<and> (case svcs of None \<Rightarrow> True | Some l \<Rightarrow> distinct l)"
    using smembers [of s d k] smembers_distinct [of s d k] by auto
qed

lemma yields_check_slashes: "yields up distinct (check_slashes Q sch host path ps)"
proof (induction ps)
  case Nil
  then show ?case by (simp add: yields_def)
next
  case (Cons p ps)
  then show ?case unfolding check_slashes_Cons by (simp add: yields_or_else yields_smembers)
qed

lemma yields_prefix_match: "yields up distinct (check_path_prefix_match Q sch host path)"
  unfolding prefix_match_or_else by (intro yields_or_else yields_smembers yields_check_slashes)

lemma yields_lookup: "yields up distinct (lookup_svcs Q sch host path)"
  unfolding lookup_svcs_def Let_def check_path_exact_match_def
  by (intro yields_or_else yields_wildcard yields_smembers yields_prefix_match)

end

section \<open>The candidates of a path\<close>

text \<open>A prefix of the path that ends with a slash or in front of one, or the whole path.\<close>

definition path_prefix :: "string \<Rightarrow> string \<Rightarrow> bool" where
  "path_prefix q path \<longleftrightarrow> q = path \<or>
     (q \<noteq> [] \<and> (\<exists>rest. path = q @ rest \<and> (last q = CHR ''/'' \<or> (rest \<noteq> [] \<and> hd rest = CHR ''/''))))"

lemma take_path_prefix:
  assumes "0 < p" "p \<le> length path" "path ! (p - 1) = CHR ''/''"
  shows "path_prefix (take p path) path" "p > 1 \<Longrightarrow> path_prefix (take (p - 1) path) path"
proof -
  have ne: "take p path \<noteq> []" using assms by (cases path) auto
  then have "last (take p path) = CHR ''/''" using assms by (simp add: last_conv_nth min_def)
  moreover have "path = take p path @ drop p path" by simp
  moreover note ne
  ultimately show "path_prefix (take p path) path" unfolding path_prefix_def by blast
  assume p: "p > 1"
  have "hd (drop (p - 1) path) = CHR ''/''" "drop (p - 1) path \<noteq> []"
    using assms by (simp_all add: hd_drop_conv_nth)
  moreover have "path = take (p - 1) path @ drop (p - 1) path" by simp
  moreover have "take (p - 1) path \<noteq> []" using assms p by (cases path) auto
  ultimately show "path_prefix (take (p - 1) path) path" unfolding path_prefix_def by blast
qed

lemma path_prefix_take:
  assumes "path_prefix q path" "q \<noteq> path"
  obtains p where "0 < p" "p \<le> length path" "path ! (p - 1) = CHR ''/''" "q = take p path \<or> (p > 1 \<and> q = take (p - 1) path)"
proof -
  obtain rest where rest: "q \<noteq> []" "path = q @ rest" "last q = CHR ''/'' \<or> (rest \<noteq> [] \<and> hd rest = CHR ''/'')"
    using assms unfolding path_prefix_def by blast
  show ?thesis
  proof (cases "last q = CHR ''/''")
    case True
    with rest show ?thesis
      by (intro that [of "length q"]) (auto simp: last_conv_nth nth_append)
  next
    case False
    with rest show ?thesis
      by (cases rest; intro that [of "length q + 1"]) (auto simp: nth_append)
  qed
qed

lemma set_prefix_candidates: "set (prefix_candidates path) = {q. path_prefix q path}"
proof -
  have slashes: "p \<in> set (find_slashes path 0) \<longleftrightarrow> 0 < p \<and> p \<le> length path \<and> path ! (p - 1) = CHR ''/''" for p
    using find_slashes_sorted [of path 0] by auto
  have "q \<in> set (prefix_candidates path) \<longleftrightarrow> q = path \<or> (\<exists>p \<in> set (find_slashes path 0).
      q \<in> set (slash_candidates path p))" for q
    by (simp add: prefix_candidates_def)
  also have "\<dots> q \<longleftrightarrow> q = path \<or> (\<exists>p. 0 < p \<and> p \<le> length path
      \<and> path ! (p - 1) = CHR ''/'' \<and> (q = take p path \<or> (p > 1 \<and> q = take (p - 1) path)))" for q
    unfolding Bex_def slashes by (simp add: slash_candidates_def string_sub_def) blast
  also have "\<dots> q \<longleftrightarrow> path_prefix q path" for q
  proof (cases "q = path")
    case True
    then show ?thesis by (simp add: path_prefix_def)
  next
    case False
    then show ?thesis using take_path_prefix path_prefix_take by metis
  qed
  finally show ?thesis by blast
qed

abbreviation longer :: "string \<Rightarrow> string \<Rightarrow> bool" where
  "longer a b \<equiv> length b \<le> length a"

lemma slash_candidates_sorted:
  assumes "0 < p" "p \<le> length path"
  shows "sorted_wrt longer (slash_candidates path p)"
    and "q \<in> set (slash_candidates path p) \<Longrightarrow> p - 1 \<le> length q \<and> length q \<le> p"
  using assms by (auto simp: slash_candidates_def string_sub_def)

lemma concat_takes_sorted:
  assumes "sorted_wrt (>) ps" "\<forall>p \<in> set ps. 0 < p \<and> p \<le> n" "n \<le> length path"
  shows "sorted_wrt longer (concat (map (slash_candidates path) ps))
    \<and> (\<forall>q \<in> set (concat (map (slash_candidates path) ps)). length q \<le> n)"
  using assms
proof (induction ps arbitrary: n)
  case (Cons p ps)
  have "\<forall>q \<in> set ps. 0 < q \<and> q \<le> p - 1" "p - 1 \<le> length path" "sorted_wrt (>) ps"
    using Cons.prems by auto
  with Cons.IH have rest: "sorted_wrt longer (concat (map (slash_candidates path) ps))"
    "\<forall>q \<in> set (concat (map (slash_candidates path) ps)). length q \<le> p - 1" by blast+
  have p: "0 < p" "p \<le> length path" "p \<le> n" using Cons.prems by auto
  note this_p = slash_candidates_sorted [OF p(1,2)]
  have "longer x y" if "x \<in> set (slash_candidates path p)" "y \<in> set (concat (map (slash_candidates path) ps))" for x y
    using this_p(2) [OF that(1)] rest(2) that(2) by (meson le_trans)
  then have "sorted_wrt longer (slash_candidates path p @ concat (map (slash_candidates path) ps))"
    unfolding sorted_wrt_append using this_p(1) rest(1) by blast
  moreover have "length q \<le> n" if "q \<in> set (slash_candidates path p @ concat (map (slash_candidates path) ps))" for q
  proof (cases "q \<in> set (slash_candidates path p)")
    case True
    with this_p(2) p(3) show ?thesis by (meson le_trans)
  next
    case False
    with that rest(2) have "length q \<le> p - 1" by (simp only: set_append Un_iff) blast
    with p(3) show ?thesis by simp
  qed
  ultimately show ?case by simp
qed simp

lemma prefix_candidates_sorted: "sorted_wrt (\<lambda>a b. length b \<le> length a) (prefix_candidates path)"
proof -
  have "sorted_wrt (>) (rev (find_slashes path 0))" "\<forall>p \<in> set (rev (find_slashes path 0)). 0 < p \<and> p \<le> length path"
    using find_slashes_sorted [of path 0] by (auto simp: sorted_wrt_rev)
  from concat_takes_sorted [OF this order_refl] show ?thesis
    by (simp add: prefix_candidates_def)
qed

section \<open>The first candidate with members\<close>

lemma first_with_Some:
  assumes "sorted_wrt R ks" "first_with D ks = Some k" "\<And>x. R x x"
  shows "k \<in> set ks" "D 1 k \<noteq> {}" "\<And>k'. k' \<in> set ks \<Longrightarrow> D 1 k' \<noteq> {} \<Longrightarrow> R k k'"
proof -
  obtain i where i: "i < length ks" "k = ks ! i" "D 1 (ks ! i) \<noteq> {}" "\<forall>j < i. D 1 (ks ! j) = {}"
    using assms(2) by (auto simp: first_with_def find_Some_iff)
  then show "k \<in> set ks" "D 1 k \<noteq> {}" by simp_all
  fix k'
  assume "k' \<in> set ks" "D 1 k' \<noteq> {}"
  then obtain j where j: "j < length ks" "k' = ks ! j" "D 1 (ks ! j) \<noteq> {}" by (auto simp: in_set_conv_nth)
  with i(4) have "i \<le> j" by (metis not_less)
  with i j assms(1,3) show "R k k'" by (cases "i = j") (auto simp: sorted_wrt_iff_nth_less)
qed

lemma first_with_None: "first_with D ks = None \<longleftrightarrow> (\<forall>k \<in> set ks. D 1 k = {})"
  by (auto simp: first_with_def find_None_iff)

lemma first_with_map: "first_with D (map f qs) = map_option f (List.find (\<lambda>q. D 1 (f q) \<noteq> {}) qs)"
  by (induction qs) (auto simp: first_with_def)

lemma find_sorted:
  assumes "sorted_wrt R qs" "List.find P qs = Some q" "\<And>x. R x x"
  shows "q \<in> set qs" "P q" "\<And>q'. q' \<in> set qs \<Longrightarrow> P q' \<Longrightarrow> R q q'"
proof -
  obtain i where i: "i < length qs" "q = qs ! i" "P (qs ! i)" "\<forall>j < i. \<not> P (qs ! j)"
    using assms(2) by (auto simp: find_Some_iff)
  then show "q \<in> set qs" "P q" by simp_all
  fix q'
  assume "q' \<in> set qs" "P q'"
  then obtain j where j: "j < length qs" "q' = qs ! j" "P (qs ! j)" by (auto simp: in_set_conv_nth)
  with i(4) have "i \<le> j" by (metis not_less)
  with i j assms(1,3) show "R q q'" by (cases "i = j") (auto simp: sorted_wrt_iff_nth_less)
qed

section \<open>The loop over the members\<close>

text \<open>What a rewritten request carries: an address of one of the services, and the original path.\<close>

definition routed :: "dbs \<Rightarrow> string set \<Rightarrow> string \<Rightarrow> client_request \<Rightarrow> bool" where
  "routed D svcs req_path r \<longleftrightarrow> (\<exists>svc v host port scheme. svc \<in> svcs \<and> \<not> is_snippet svc \<and> v \<in> D 0 svc
     \<and> split_on (CHR ''#'') v = [host, port, scheme] \<and> url_host r = Some host \<and> url_port r = Some port
     \<and> url_scheme r = Some scheme \<and> uri r = Some req_path \<and> skip_remapping r
     \<and> cache_url r = Some (pristine_url r))"

text \<open>Database 0 holds addresses only.\<close>

definition addresses_ok :: "dbs \<Rightarrow> bool" where
  "addresses_ok D \<longleftrightarrow> (\<forall>k v. v \<in> D 0 k \<longrightarrow> (\<exists>host port scheme. split_on (CHR ''#'') v = [host, port, scheme]))"

lemma addresses_okD:
  assumes "addresses_ok D" "v \<in> D 0 k"
  obtains host port scheme where "ipport_split v (CHR ''#'') = [host, port, scheme]"
    "split_on (CHR ''#'') v = [host, port, scheme]"
proof -
  obtain host port scheme where s: "split_on (CHR ''#'') v = [host, port, scheme]"
    using assms unfolding addresses_ok_def by blast
  then have "v \<noteq> []" by auto
  with s show ?thesis by (intro that [of host port scheme]) (simp_all add: ipport_split_def)
qed

lemma rewrite_routed:
  assumes "svc \<in> svcs" "\<not> is_snippet svc" "v \<in> D 0 svc" "split_on (CHR ''#'') v = [host, port, scheme]"
  shows "routed D svcs req_path (rewrite [host, port, scheme] req_path r)"
  unfolding routed_def
  by (intro exI conjI, rule assms(1), rule assms(2), rule assms(3), rule assms(4))
    (simp_all add: rewrite_def)

context lua_client
begin

lemma route_loop_result:
  assumes "up s" "addresses_ok (members s)" "set svcs \<subseteq> S"
    and "\<forall>svc \<in> set svcs. \<not> is_snippet svc \<longrightarrow> members s 0 svc \<noteq> {}"
    and "(\<exists>svc \<in> set svcs. \<not> is_snippet svc) \<or> routed (members s) S req_path r"
  shows "\<exists>r' s'. route_loop Q req_path svcs r s = (Finished, r', s') \<and> up s' \<and> members s' = members s
    \<and> routed (members s) S req_path r'"
  using assms
proof (induction svcs arbitrary: r s)
  case (Cons svc svcs)
  show ?case
  proof (cases "is_snippet svc")
    case True
    then show ?thesis using Cons.IH [OF Cons.prems(1,2)] Cons.prems(3-5) by simp
  next
    case False
    obtain v s1 where v: "select_srandmember Q 0 svc s = (v, s1)" "up s1" "members s1 = members s"
      "case v of None \<Rightarrow> members s 0 svc = {} | Some v \<Rightarrow> v \<in> members s 0 svc"
      using srandmember [OF Cons.prems(1)] by blast
    with Cons.prems(4) False obtain w where w: "v = Some w" "w \<in> members s 0 svc" by (cases v) auto
    obtain host port scheme where h: "ipport_split w (CHR ''#'') = [host, port, scheme]"
      "split_on (CHR ''#'') w = [host, port, scheme]"
      by (rule addresses_okD [OF Cons.prems(2) w(2)])
    have "routed (members s) S req_path (rewrite [host, port, scheme] req_path r)"
      by (rule rewrite_routed [where D = "members s" and v = w, OF _ False w(2) h(2)]) (use Cons.prems(3) in simp)
    then have "\<exists>r' s'. route_loop Q req_path svcs (rewrite [host, port, scheme] req_path r) s1 = (Finished, r', s')
        \<and> up s' \<and> members s' = members s1 \<and> routed (members s1) S req_path r'"
      using Cons.prems(2-4) v(3) by (intro Cons.IH v(2)) simp_all
    with False v w h show ?thesis by simp
  qed
qed simp

end

section \<open>Properties\<close>

text \<open>
  C36. The loop that collects the positions of the slashes in a path ends, with all of them, in
  ascending order.
\<close>

theorem find_slashes_correct:
  "sorted_wrt (<) (find_slashes path 0)
   \<and> set (find_slashes path 0) = {j. 0 < j \<and> j \<le> length path \<and> path ! (j - 1) = CHR ''/''}"
  by (rule find_slashes_sorted)

text \<open>
  C21. The lookup of a request tries the routing keys in this order and stops at the first with
  members, whose members it returns: the exact key and the prefix keys for the host, the same for
  the host with its first label replaced by a star, and the same for the star alone.
\<close>

theorem lookup_svcs_correct:
  assumes "lua_client Q members up" "up s"
  shows "\<exists>svcs s'. lookup_svcs Q req_scheme req_host req_path s = (svcs, s') \<and> up s' \<and> members s' = members s
    \<and> (case first_with (members s) (route_candidates req_scheme req_host req_path) of
         None \<Rightarrow> no_svcs svcs
       | Some k \<Rightarrow> \<not> no_svcs svcs \<and> set (the svcs) = members s 1 k)"
  by (rule findsD [OF lua_client.finds_lookup [OF assms(1)] assms(2)])

text \<open>The in-memory server, read by the plugin: the server and the database selected.\<close>

type_synonym mem_conn = "mem_state \<times> nat"

definition mem_lua :: "mem_conn lua_redis" where
  "mem_lua = \<lparr>lua_ping = (\<lambda>c. (online (fst c), c)),
     lua_select = (\<lambda>d c. (fst c, d)),
     lua_smembers = (\<lambda>k c. (if online (fst c) then Some (mem_set (fst c) (snd c) k) else None, c)),
     lua_srandmember = (\<lambda>k c.
       (if online (fst c) then (case mem_set (fst c) (snd c) k of [] \<Rightarrow> None | v # _ \<Rightarrow> Some v) else None, c))\<rparr>"

definition conn_members :: "mem_conn \<Rightarrow> dbs" where
  "conn_members c = mem_members (fst c)"

definition conn_up :: "mem_conn \<Rightarrow> bool" where
  "conn_up c \<longleftrightarrow> mem_up (fst c)"

lemma conn_simps [simp]: "conn_members (s, d) = mem_members s" "conn_up (s, d) = mem_up s"
  by (simp_all add: conn_members_def conn_up_def)

interpretation mem_plugin: lua_sets mem_lua conn_members conn_up
  by unfold_locales
    (auto simp: mem_lua_def select_smembers_def select_srandmember_def mem_members_def mem_up_distinct
      split: list.split if_splits, auto simp: mem_up_def)

definition ex_table :: mem_state where
  "ex_table = mem_put 1 ''P+http://*.t.com/a'' [''ns:svc:80'']
     (mem_put 0 ''ns:svc:80'' [''10.0.0.1#80#http''] mem_empty)"

lemma ex_table_up: "mem_up ex_table" "conn_up (ex_table, 0)"
  by (simp_all add: ex_table_def mem_up_put)

lemma ex_table_members:
  "mem_members ex_table d k = (if d = 1 \<and> k = ''P+http://*.t.com/a'' then {''ns:svc:80''}
     else if d = 0 \<and> k = ''ns:svc:80'' then {''10.0.0.1#80#http''} else {})"
  by (simp add: ex_table_def mem_members_def mem_set_put) (simp add: mem_set_def mem_empty_def)

lemma ex_candidates: "route_candidates ''http'' ''x.t.com'' ''/a/b'' =
   [''E+http://x.t.com/a/b'', ''P+http://x.t.com/a/b'', ''P+http://x.t.com/a/'', ''P+http://x.t.com/a'',
    ''P+http://x.t.com/'', ''E+http://*.t.com/a/b'', ''P+http://*.t.com/a/b'', ''P+http://*.t.com/a/'',
    ''P+http://*.t.com/a'', ''P+http://*.t.com/'', ''E+http://*/a/b'', ''P+http://*/a/b'', ''P+http://*/a/'',
    ''P+http://*/a'', ''P+http://*/'']"
proof -
  have "find_slashes ''/a/b'' 0 = [1, 3]"
    by code_simp
  moreover have "get_wildcard_domain ''x.t.com'' = Some ''*.t.com''" by code_simp
  ultimately show ?thesis
    by (simp add: route_candidates_def host_candidates_def prefix_candidates_def slash_candidates_def
        exact_key_def prefix_key_def string_sub_def take_Cons')
qed

theorem lookup_svcs_correct_witness:
  "\<exists>svcs s'. lookup_svcs mem_lua ''http'' ''x.t.com'' ''/a/b'' (ex_table, 0) = (svcs, s')
    \<and> \<not> no_svcs svcs \<and> set (the svcs) = {''ns:svc:80''}"
proof -
  have "first_with (mem_members ex_table) (route_candidates ''http'' ''x.t.com'' ''/a/b'') = Some ''P+http://*.t.com/a''"
    unfolding ex_candidates by (simp add: first_with_def ex_table_members)
  then show ?thesis
    using lookup_svcs_correct [OF mem_plugin.lua_client_axioms, OF ex_table_up(2), of "''http''" "''x.t.com''" "''/a/b''"]
    by (auto simp: ex_table_members)
qed

text \<open>
  C20. The prefix match is the longest one: of the prefixes of the path that end at a slash, with it
  or before it, the plugin takes the longest whose key has members, and it finds nothing exactly when
  none has.
\<close>

theorem prefix_match_longest:
  assumes "lua_client Q members up" "up s"
  shows "\<exists>svcs s'. check_path_prefix_match Q req_scheme req_host path s = (svcs, s')
    \<and> (no_svcs svcs \<longleftrightarrow> (\<forall>q. path_prefix q path \<longrightarrow> members s 1 (prefix_key req_scheme req_host q) = {}))
    \<and> (\<not> no_svcs svcs \<longrightarrow> (\<exists>q. path_prefix q path \<and> set (the svcs) = members s 1 (prefix_key req_scheme req_host q)
        \<and> (\<forall>q'. path_prefix q' path \<and> length q < length q' \<longrightarrow> members s 1 (prefix_key req_scheme req_host q') = {})))"
proof -
  let ?P = "\<lambda>q. members s 1 (prefix_key req_scheme req_host q) \<noteq> {}"
  obtain svcs s' where r: "check_path_prefix_match Q req_scheme req_host path s = (svcs, s')"
    "case first_with (members s) (map (prefix_key req_scheme req_host) (prefix_candidates path)) of
       None \<Rightarrow> no_svcs svcs
     | Some k \<Rightarrow> \<not> no_svcs svcs \<and> set (the svcs) = members s 1 k"
    using findsD [OF lua_client.finds_prefix_match [OF assms(1)] assms(2), of req_scheme req_host path] by blast
  show ?thesis
  proof (cases "List.find ?P (prefix_candidates path)")
    case None
    then have "\<forall>q \<in> set (prefix_candidates path). \<not> ?P q" by (simp add: find_None_iff)
    with r None show ?thesis by (simp add: first_with_map set_prefix_candidates)
  next
    case (Some q)
    have q: "path_prefix q path" "?P q" "\<And>q'. path_prefix q' path \<Longrightarrow> ?P q' \<Longrightarrow> length q' \<le> length q"
      using find_sorted [OF prefix_candidates_sorted Some] by (simp_all add: set_prefix_candidates)
    have longest: "\<forall>q'. path_prefix q' path \<and> length q < length q' \<longrightarrow> \<not> ?P q'"
      using q(3) by (metis not_less)
    have "\<not> no_svcs svcs" "set (the svcs) = members s 1 (prefix_key req_scheme req_host q)"
      using r(2) Some by (simp_all add: first_with_map)
    with r(1) q(1,2) longest show ?thesis by blast
  qed
qed

theorem prefix_match_longest_witness:
  "\<exists>svcs s'. check_path_prefix_match mem_lua ''http'' ''*.t.com'' ''/a/b'' (ex_table, 0) = (svcs, s')
    \<and> \<not> no_svcs svcs"
proof -
  have "path_prefix ''/a'' ''/a/b''" unfolding path_prefix_def by (intro disjI2 conjI exI [of _ "''/b''"]) simp_all
  moreover have "conn_members (ex_table, 0) 1 (prefix_key ''http'' ''*.t.com'' ''/a'') \<noteq> {}"
    by (simp add: ex_table_members prefix_key_def)
  ultimately show ?thesis
    using prefix_match_longest [OF mem_plugin.lua_client_axioms, OF ex_table_up(2), of "''http''" "''*.t.com''" "''/a/b''"]
    by blast
qed

section \<open>The hook\<close>

definition request_candidates :: "client_request \<Rightarrow> string list" where
  "request_candidates r =
     route_candidates (or_default (url_scheme r) ''http'') (or_default (url_host r) []) (or_default (uri r) [])"

text \<open>Before the lookup the host of a request over HTTP 1.1 is set to itself.\<close>

definition with_host :: "client_request \<Rightarrow> client_request" where
  "with_host r = (if http_version r = ''1.1'' \<and> or_default (url_scheme r) ''http'' = ''http''
     then r\<lparr>url_host := Some (or_default (url_host r) [])\<rparr> else r)"

context lua_client
begin

lemma hook_lookup:
  assumes "up s"
  shows "\<exists>svcs s'. up s' \<and> members s' = members s
    \<and> (\<exists>s1 sch host. up s1 \<and> lookup_svcs Q sch host (or_default (uri r) []) s1 = (svcs, s'))
    \<and> (case first_with (members s) (request_candidates r) of
         None \<Rightarrow> no_svcs svcs
       | Some k \<Rightarrow> \<not> no_svcs svcs \<and> set (the svcs) = members s 1 k)
    \<and> do_global_read_request Q run snippets r s =
       (if no_svcs svcs then (Return0, with_host r, s')
        else (case route_loop Q (or_default (uri r) []) (the svcs) (with_host r) s' of
           (Finished, r2, s3) \<Rightarrow> if snippets then snippet_loop Q run (the svcs) r2 s3 else (Finished, r2, s3)
         | stopped \<Rightarrow> stopped))"
proof -
  obtain s1 where 1: "lua_ping Q s = (True, s1)" "up s1" "members s1 = members s"
    using lua_ping [OF assms] by blast
  obtain svcs s2 where 2: "lookup_svcs Q (or_default (url_scheme r) ''http'') (or_default (url_host r) [])
      (or_default (uri r) []) s1 = (svcs, s2)" "up s2" "members s2 = members s"
    "case first_with (members s) (request_candidates r) of
         None \<Rightarrow> no_svcs svcs
       | Some k \<Rightarrow> \<not> no_svcs svcs \<and> set (the svcs) = members s 1 k"
    using findsD [OF finds_lookup 1(2), unfolded 1(3)] unfolding request_candidates_def by blast
  have "do_global_read_request Q run snippets r s =
       (if no_svcs svcs then (Return0, with_host r, s2)
        else (case route_loop Q (or_default (uri r) []) (the svcs) (with_host r) s2 of
           (Finished, r2, s3) \<Rightarrow> if snippets then snippet_loop Q run (the svcs) r2 s3 else (Finished, r2, s3)
         | stopped \<Rightarrow> stopped))"
    unfolding do_global_read_request_def with_host_def 1(1) Let_def 2(1)
    by (simp only: case_prod_conv bool.case 2(1))
  with 1(2) 2 show ?thesis by blast
qed

lemma hook_routes:
  assumes "up s" "addresses_ok (members s)" "first_with (members s) (request_candidates r) = Some k"
    and "\<exists>svc \<in> members s 1 k. \<not> is_snippet svc"
    and "\<forall>svc \<in> members s 1 k. \<not> is_snippet svc \<longrightarrow> members s 0 svc \<noteq> {}"
  shows "\<exists>r' s'. do_global_read_request Q run False r s = (Finished, r', s')
    \<and> routed (members s) (members s 1 k) (or_default (uri r) []) r'"
proof -
  obtain svcs s1 where 1: "up s1" "members s1 = members s" "\<not> no_svcs svcs" "set (the svcs) = members s 1 k"
    "do_global_read_request Q run False r s =
       (if no_svcs svcs then (Return0, with_host r, s1)
        else (case route_loop Q (or_default (uri r) []) (the svcs) (with_host r) s1 of
           (Finished, r2, s3) \<Rightarrow> if False then snippet_loop Q run (the svcs) r2 s3 else (Finished, r2, s3)
         | stopped \<Rightarrow> stopped))"
    using hook_lookup [OF assms(1), of r run False] assms(3) by auto
  obtain r2 s2 where "route_loop Q (or_default (uri r) []) (the svcs) (with_host r) s1 = (Finished, r2, s2)"
    "routed (members s) (members s 1 k) (or_default (uri r) []) r2"
    using route_loop_result [OF 1(1), of "the svcs" "members s 1 k" "or_default (uri r) []" "with_host r"]
      assms(2,4,5) 1(2,4) by auto
  with 1(3,5) show ?thesis by simp
qed

end

text \<open>
  A request for which no routing key has members is passed on as it is: the hook returns early,
  with the scheme, port, path and cache key of the request unchanged.
\<close>

theorem request_unrouted:
  assumes "lua_client Q members up" "up s" "first_with (members s) (request_candidates r) = None"
  shows "\<exists>r' s'. do_global_read_request Q run snippets r s = (Return0, r', s')
    \<and> r' = (if http_version r = ''1.1'' \<and> or_default (url_scheme r) ''http'' = ''http''
         then r\<lparr>url_host := Some (or_default (url_host r) [])\<rparr> else r)"
  using lua_client.hook_lookup [OF assms(1,2), of r run snippets] assms(3) by (auto simp: with_host_def)

definition ex_request :: client_request where
  "ex_request = \<lparr>url_scheme = Some ''http'', url_host = Some ''x.t.com'', url_port = None, uri = Some ''/a/b'',
     http_version = ''2'', pristine_url = ''http://x.t.com/a/b'', cache_url = None, skip_remapping = False\<rparr>"

lemma ex_request_candidates:
  "request_candidates ex_request = route_candidates ''http'' ''x.t.com'' ''/a/b''"
  by (simp add: request_candidates_def ex_request_def or_default_def)

theorem request_unrouted_witness:
  "\<exists>s'. do_global_read_request mem_lua (\<lambda>_ r. Some r) True ex_request (mem_empty, 0) = (Return0, ex_request, s')"
proof -
  have "conn_up (mem_empty, 0)" "first_with (conn_members (mem_empty, 0)) (request_candidates ex_request) = None"
    by (simp_all add: first_with_None)
  from request_unrouted [OF mem_plugin.lua_client_axioms, OF this, of "\<lambda>_ r. Some r" True]
  show ?thesis by (auto simp: ex_request_def)
qed

text \<open>
  A request is sent to an address of the first routing key with members: the plugin sets scheme,
  host and port from one of the addresses that database 0 holds for one of the services under the
  key, keeps the path, and takes the original URL as cache key, provided that every service under the
  key has an address.
\<close>

theorem request_routed:
  assumes "lua_client Q members up" "up s" "addresses_ok (members s)"
    and "first_with (members s) (request_candidates r) = Some k"
    and "\<exists>svc \<in> members s 1 k. \<not> is_snippet svc"
    and "\<forall>svc \<in> members s 1 k. \<not> is_snippet svc \<longrightarrow> members s 0 svc \<noteq> {}"
  shows "\<exists>r' s'. do_global_read_request Q run False r s = (Finished, r', s')
    \<and> routed (members s) (members s 1 k) (or_default (uri r) []) r'"
  by (rule lua_client.hook_routes [OF assms(1)]) (fact assms)+

theorem request_routed_witness:
  "\<exists>r' s'. do_global_read_request mem_lua (\<lambda>_ r. Some r) False ex_request (ex_table, 0) = (Finished, r', s')
    \<and> url_host r' = Some ''10.0.0.1''"
proof -
  have k: "first_with (conn_members (ex_table, 0)) (request_candidates ex_request) = Some ''P+http://*.t.com/a''"
    unfolding ex_request_candidates ex_candidates by (simp add: first_with_def ex_table_members)
  have s: "split_on (CHR ''#'') ''10.0.0.1#80#http'' = [''10.0.0.1'', ''80'', ''http'']" by simp
  have a: "addresses_ok (conn_members (ex_table, 0))"
    using s by (simp add: addresses_ok_def ex_table_members)
  have m: "\<exists>svc \<in> conn_members (ex_table, 0) 1 ''P+http://*.t.com/a''. \<not> is_snippet svc"
    "\<forall>svc \<in> conn_members (ex_table, 0) 1 ''P+http://*.t.com/a''. \<not> is_snippet svc \<longrightarrow> conn_members (ex_table, 0) 0 svc \<noteq> {}"
    by (simp_all add: ex_table_members is_snippet_def string_sub_def take_Cons')
  from request_routed [OF mem_plugin.lua_client_axioms, OF ex_table_up(2) a k m, of "\<lambda>_ r. Some r"]
  obtain r' s' where r': "do_global_read_request mem_lua (\<lambda>_ r. Some r) False ex_request (ex_table, 0) = (Finished, r', s')"
    "routed (conn_members (ex_table, 0)) (conn_members (ex_table, 0) 1 ''P+http://*.t.com/a'') (or_default (uri ex_request) []) r'"
    by blast
  then have "url_host r' = Some ''10.0.0.1''"
    using s by (auto simp: routed_def ex_table_members)
  with r'(1) show ?thesis by blast
qed

section \<open>The cost of a lookup\<close>

text \<open>A client that counts the commands it sends.\<close>

definition counted :: "'s lua_redis \<Rightarrow> ('s \<times> nat) lua_redis" where
  "counted Q = \<lparr>
     lua_ping = (\<lambda>(s, n). case lua_ping Q s of (r, s') \<Rightarrow> (r, (s', n + 1))),
     lua_select = (\<lambda>d (s, n). (lua_select Q d s, n + 1)),
     lua_smembers = (\<lambda>k (s, n). case lua_smembers Q k s of (r, s') \<Rightarrow> (r, (s', n + 1))),
     lua_srandmember = (\<lambda>k (s, n). case lua_srandmember Q k s of (r, s') \<Rightarrow> (r, (s', n + 1)))\<rparr>"

text \<open>\<open>costs p m\<close>: the lookup \<open>p\<close> sends at most \<open>m\<close> commands.\<close>

definition costs :: "('s \<times> nat) lookup \<Rightarrow> nat \<Rightarrow> bool" where
  "costs p m \<longleftrightarrow> (\<forall>s n. snd (snd (p (s, n))) \<le> n + m)"

lemma costs_smembers: "costs (select_smembers (counted Q) d k) 2"
  by (simp add: costs_def counted_def select_smembers_def split: prod.split)

lemma costs_or_else:
  assumes "costs p m" "costs q m'"
  shows "costs (or_else p q) (m + m')"
  unfolding costs_def
proof (intro allI)
  fix s n
  obtain svcs s1 n1 where p: "p (s, n) = (svcs, (s1, n1))" by (metis prod.exhaust)
  have "n1 \<le> n + m" using assms(1) p unfolding costs_def by (metis snd_conv)
  moreover have "snd (snd (q (s1, n1))) \<le> n1 + m'" using assms(2) unfolding costs_def by blast
  ultimately show "snd (snd (or_else p q (s, n))) \<le> n + (m + m')" by (simp add: or_else_def p)
qed

lemma costs_mono: "costs p m \<Longrightarrow> m \<le> m' \<Longrightarrow> costs p m'"
  unfolding costs_def by (meson add_le_cancel_left le_trans)

lemma costs_check_slashes: "costs (check_slashes (counted Q) sch host path ps) (4 * length ps)"
proof (induction ps)
  case Nil
  then show ?case by (simp add: costs_def)
next
  case (Cons p ps)
  let ?m = "\<lambda>p. select_smembers (counted Q) 1 (prefix_key sch host (string_sub path 1 p))"
  have "costs (or_else (?m p) (or_else (?m (p - 1)) (check_slashes (counted Q) sch host path ps))) (2 + (2 + 4 * length ps))"
    by (intro costs_or_else costs_smembers Cons.IH)
  moreover have "costs (or_else (?m p) (check_slashes (counted Q) sch host path ps)) (2 + 4 * length ps)"
    by (intro costs_or_else costs_smembers Cons.IH)
  moreover have "check_slashes (counted Q) sch host path (p # ps) = or_else (?m p)
      (if p > 1 then or_else (?m (p - 1)) (check_slashes (counted Q) sch host path ps)
       else check_slashes (counted Q) sch host path ps)"
    by (auto simp: or_else_def fun_eq_iff split: prod.split)
  ultimately show ?case by (auto elim: costs_mono)
qed

lemma costs_prefix_match:
  "costs (check_path_prefix_match (counted Q) sch host path) (2 + 4 * length (find_slashes path 0))"
proof -
  have "check_path_prefix_match (counted Q) sch host path = or_else (select_smembers (counted Q) 1 (prefix_key sch host path))
      (check_slashes (counted Q) sch host path (rev (find_slashes path 0)))"
    by (auto simp: check_path_prefix_match_def or_else_def fun_eq_iff split: prod.split)
  with costs_or_else [OF costs_smembers costs_check_slashes, of Q 1 "prefix_key sch host path" Q sch host path
      "rev (find_slashes path 0)"]
  show ?thesis by simp
qed

lemma costs_exact_match: "costs (check_path_exact_match (counted Q) sch host path) 2"
  unfolding check_path_exact_match_def by (rule costs_smembers)

lemma costs_wildcard:
  "costs p m \<Longrightarrow> (\<And>h. costs (q h) m') \<Longrightarrow> costs (or_else_wildcard p host q) (m + m')"
  unfolding or_else_wildcard_alt by (cases host) (auto intro: costs_mono costs_or_else)

lemma length_find_slashes: "length (find_slashes path 0) = card {j. j < length path \<and> path ! j = CHR ''/''}"
proof -
  have "distinct (find_slashes path 0)"
    using find_slashes_sorted [of path 0] by (simp add: strict_sorted_iff)
  then have "length (find_slashes path 0) = card (set (find_slashes path 0))" by (simp add: distinct_card)
  also have "set (find_slashes path 0) = Suc ` {j. j < length path \<and> path ! j = CHR ''/''}"
  proof (rule set_eqI)
    fix j
    have "j \<in> set (find_slashes path 0) \<longleftrightarrow> 0 < j \<and> j \<le> length path \<and> path ! (j - 1) = CHR ''/''"
      using conjunct2 [OF find_slashes_sorted [of path 0]] by simp
    then show "j \<in> set (find_slashes path 0) \<longleftrightarrow> j \<in> Suc ` {j. j < length path \<and> path ! j = CHR ''/''}"
      by (cases j) (simp_all add: image_iff Suc_le_eq)
  qed
  also have "card (Suc ` {j. j < length path \<and> path ! j = CHR ''/''}) = card {j. j < length path \<and> path ! j = CHR ''/''}"
    by (rule card_image) simp
  finally show ?thesis .
qed

text \<open>
  C35. A lookup ends after a bounded number of commands, whatever the server answers: at most
  twelve, and twelve more for each slash in the path. Each of the keys tried costs two, the selection of
  the database and the read.
\<close>

theorem lookup_svcs_cost:
  "snd (snd (lookup_svcs (counted Q) req_scheme req_host req_path (s, n)))
   \<le> n + (12 + 12 * card {j. j < length req_path \<and> req_path ! j = CHR ''/''})"
proof -
  let ?k = "2 + 4 * length (find_slashes req_path 0)"
  have "costs (lookup_svcs (counted Q) req_scheme req_host req_path) (2 + ?k + 2 + ?k + 2 + ?k)"
    unfolding lookup_svcs_def Let_def
    by (intro costs_or_else costs_wildcard costs_exact_match costs_prefix_match)
  then have "costs (lookup_svcs (counted Q) req_scheme req_host req_path) (12 + 12 * length (find_slashes req_path 0))"
    by (rule costs_mono) simp
  then show ?thesis unfolding costs_def length_find_slashes by blast
qed

section \<open>A service without addresses\<close>

lemma route_loop_append:
  "route_loop Q req_path (xs @ ys) r s =
     (case route_loop Q req_path xs r s of
        (Finished, r', s') \<Rightarrow> route_loop Q req_path ys r' s'
      | stopped \<Rightarrow> stopped)"
  by (induction xs arbitrary: r s) (auto simp: Let_def split: prod.splits option.splits)

lemma route_loop_snippets: "list_all is_snippet svcs \<Longrightarrow> route_loop Q req_path svcs r s = (Finished, r, s)"
  by (induction svcs) auto

context lua_client
begin

text \<open>The first service without an address stops the loop, after the ones before it.\<close>

lemma route_loop_stopped:
  assumes "up s" "addresses_ok (members s)" "\<not> is_snippet svc" "members s 0 svc = {}"
    and "\<forall>sv \<in> set before. \<not> is_snippet sv \<longrightarrow> members s 0 sv \<noteq> {}"
  shows "\<exists>r' s'. route_loop Q req_path (before @ svc # after) r s = (Return0, r', s')
    \<and> (if list_all is_snippet before then r' = r else routed (members s) (set before) req_path r')"
proof -
  obtain r1 s1 where 1: "route_loop Q req_path before r s = (Finished, r1, s1)" "up s1" "members s1 = members s"
    "if list_all is_snippet before then r1 = r else routed (members s) (set before) req_path r1"
  proof (cases "list_all is_snippet before")
    case True
    with route_loop_snippets [OF True, of Q req_path r s] assms(1) that show thesis by simp
  next
    case False
    then have ex: "\<exists>sv \<in> set before. \<not> is_snippet sv" by (simp add: list_all_iff)
    obtain r1 s1 where "route_loop Q req_path before r s = (Finished, r1, s1)" "up s1" "members s1 = members s"
      "routed (members s) (set before) req_path r1"
      using route_loop_result [OF assms(1,2) order_refl assms(5) disjI1 [OF ex]] by blast
    with False that show thesis by simp
  qed
  obtain v s2 where "select_srandmember Q 0 svc s1 = (v, s2)"
    "case v of None \<Rightarrow> members s1 0 svc = {} | Some v \<Rightarrow> v \<in> members s1 0 svc"
    using srandmember [OF 1(2)] by blast
  then have "select_srandmember Q 0 svc s1 = (None, s2)" using 1(3) assms(4) by (cases v) auto
  with 1 assms(3) show ?thesis by (simp add: route_loop_append)
qed

lemma hook_stopped:
  assumes "up s" "addresses_ok (members s)" "first_with (members s) (request_candidates r) = Some k"
    and "svc \<in> members s 1 k" "\<not> is_snippet svc" "members s 0 svc = {}"
  shows "\<exists>before sv after r' s'. set (before @ sv # after) = members s 1 k
    \<and> \<not> is_snippet sv \<and> members s 0 sv = {}
    \<and> do_global_read_request Q run snippets r s = (Return0, r', s')
    \<and> (if list_all is_snippet before then r' = with_host r
       else routed (members s) (set before) (or_default (uri r) []) r')"
proof -
  obtain svcs s1 where 1: "up s1" "members s1 = members s" "\<not> no_svcs svcs" "set (the svcs) = members s 1 k"
    "do_global_read_request Q run snippets r s =
       (if no_svcs svcs then (Return0, with_host r, s1)
        else (case route_loop Q (or_default (uri r) []) (the svcs) (with_host r) s1 of
           (Finished, r2, s3) \<Rightarrow> if snippets then snippet_loop Q run (the svcs) r2 s3 else (Finished, r2, s3)
         | stopped \<Rightarrow> stopped))"
    using hook_lookup [OF assms(1), of r run snippets] assms(3) by auto
  let ?stuck = "\<lambda>sv. \<not> is_snippet sv \<and> members s 0 sv = {}"
  have "\<exists>sv \<in> set (the svcs). ?stuck sv" using 1(4) assms(4-6) by blast
  then obtain before sv after where split: "the svcs = before @ sv # after" "?stuck sv" "\<forall>x \<in> set before. \<not> ?stuck x"
    by (rule split_list_first_propE)
  have "\<forall>x \<in> set before. \<not> is_snippet x \<longrightarrow> members s 0 x \<noteq> {}" using split(3) by blast
  then obtain r' s' where "route_loop Q (or_default (uri r) []) (the svcs) (with_host r) s1 = (Return0, r', s')"
    "if list_all is_snippet before then r' = with_host r
     else routed (members s) (set before) (or_default (uri r) []) r'"
    using route_loop_stopped [OF 1(1), of sv before "or_default (uri r) []" after "with_host r"]
      split(2) assms(2) unfolding split(1) 1(2) by blast
  moreover have "set (before @ sv # after) = members s 1 k" using 1(4) by (simp only: split(1))
  moreover have "do_global_read_request Q run snippets r s = (Return0, r', s')" using 1(3,5) calculation(1) by simp
  ultimately show ?thesis using split(2) by blast
qed

end

text \<open>
  C23. When several services are registered under the routing key of a request and one of them has no
  address, the hook returns early and runs no snippet. What it leaves depends on the order in which
  the server lists the members: if an addressed service comes before the first one without address,
  the request is already rewritten to an address of such a service; otherwise it is passed on as it
  came, although other services of the route have addresses. Database 0 holds well-formed addresses.
\<close>

theorem request_stopped:
  assumes "lua_client Q members up" "up s" "addresses_ok (members s)"
    and "first_with (members s) (request_candidates r) = Some k"
    and "svc \<in> members s 1 k" "\<not> is_snippet svc" "members s 0 svc = {}"
  shows "\<exists>before sv after r' s'. set (before @ sv # after) = members s 1 k
    \<and> \<not> is_snippet sv \<and> members s 0 sv = {}
    \<and> do_global_read_request Q run snippets r s = (Return0, r', s')
    \<and> (if list_all is_snippet before then r' = with_host r
       else routed (members s) (set before) (or_default (uri r) []) r')"
  by (rule lua_client.hook_stopped [OF assms(1)]) (fact assms)+

definition two_services :: mem_state where
  "two_services = mem_put 1 ''P+http://*.t.com/a'' [''ns:svc:80'', ''ns:new:80'']
     (mem_put 0 ''ns:svc:80'' [''10.0.0.1#80#http''] mem_empty)"

lemma two_services_members:
  "mem_members two_services d k = (if d = 1 \<and> k = ''P+http://*.t.com/a'' then {''ns:svc:80'', ''ns:new:80''}
     else if d = 0 \<and> k = ''ns:svc:80'' then {''10.0.0.1#80#http''} else {})"
  by (simp add: two_services_def mem_members_def mem_set_put) (simp add: mem_set_def mem_empty_def)

theorem request_stopped_witness:
  "\<exists>r' s'. do_global_read_request mem_lua (\<lambda>_ r. Some r) True ex_request (two_services, 0) = (Return0, r', s')
   \<and> (r' = ex_request \<or> url_host r' = Some ''10.0.0.1'')"
proof -
  have up: "conn_up (two_services, 0)" by (simp add: two_services_def mem_up_put)
  have k: "first_with (conn_members (two_services, 0)) (request_candidates ex_request) = Some ''P+http://*.t.com/a''"
    unfolding ex_request_candidates ex_candidates by (simp add: first_with_def two_services_members)
  have s: "split_on (CHR ''#'') ''10.0.0.1#80#http'' = [''10.0.0.1'', ''80'', ''http'']" by simp
  have a: "addresses_ok (conn_members (two_services, 0))"
    using s by (simp add: addresses_ok_def two_services_members)
  have svc: "''ns:new:80'' \<in> conn_members (two_services, 0) 1 ''P+http://*.t.com/a''" "\<not> is_snippet ''ns:new:80''"
    "conn_members (two_services, 0) 0 ''ns:new:80'' = {}"
    by (simp_all add: two_services_members is_snippet_def string_sub_def take_Cons')
  obtain before r' s' where r': "do_global_read_request mem_lua (\<lambda>_ r. Some r) True ex_request (two_services, 0) = (Return0, r', s')"
    "if list_all is_snippet before then r' = with_host ex_request
     else routed (conn_members (two_services, 0)) (set before) (or_default (uri ex_request) []) r'"
    using request_stopped [OF mem_plugin.lua_client_axioms, OF up a k svc, of "\<lambda>_ r. Some r" True] by blast
  have "with_host ex_request = ex_request" by (simp add: with_host_def ex_request_def)
  with r' s show ?thesis by (auto simp: routed_def two_services_members split: if_splits)
qed

section \<open>Snippets\<close>

context lua_sets
begin

lemma snippet_loop_result:
  assumes "up s" "\<forall>svc \<in> set svcs. is_snippet svc \<longrightarrow> members s 1 svc = {code_of svc}"
    and "\<And>c r. run c r = Some (effect c r)"
  shows "\<exists>s'. snippet_loop Q run svcs r s
    = (Finished, fold (\<lambda>svc. effect (code_of svc)) (filter is_snippet svcs) r, s')"
  using assms(1,2)
proof (induction svcs arbitrary: r s)
  case (Cons svc svcs)
  show ?case
  proof (cases "is_snippet svc")
    case True
    obtain vs s1 where vs: "select_smembers Q 1 svc s = (Some vs, s1)" "up s1" "members s1 = members s"
      "set vs = {code_of svc}"
      using smembers [OF Cons.prems(1), of 1 svc] Cons.prems(2) True by auto
    then obtain ws where "vs = code_of svc # ws" by (cases vs) auto
    with vs True Cons.IH [OF vs(2), of "effect (code_of svc) r"] Cons.prems(2) show ?thesis
      by (simp add: assms(3))
  next
    case False
    with Cons.IH [OF Cons.prems(1)] Cons.prems(2) show ?thesis by simp
  qed
qed simp

lemma hook_snippets:
  assumes "up s" "addresses_ok (members s)" "first_with (members s) (request_candidates r) = Some k"
    and "\<exists>svc \<in> members s 1 k. \<not> is_snippet svc"
    and "\<forall>svc \<in> members s 1 k. \<not> is_snippet svc \<longrightarrow> members s 0 svc \<noteq> {}"
    and "\<forall>svc \<in> members s 1 k. is_snippet svc \<longrightarrow> members s 1 svc = {code_of svc}"
    and "\<And>c r. run c r = Some (effect c r)"
  shows "\<exists>svcs r' s'. do_global_read_request Q run True r s
      = (Finished, fold (\<lambda>svc. effect (code_of svc)) (filter is_snippet svcs) r', s')
    \<and> distinct svcs \<and> set svcs = members s 1 k
    \<and> routed (members s) (members s 1 k) (or_default (uri r) []) r'"
proof -
  obtain svcs s1 where 1: "up s1" "members s1 = members s" "\<not> no_svcs svcs" "set (the svcs) = members s 1 k"
    "do_global_read_request Q run True r s =
       (if no_svcs svcs then (Return0, with_host r, s1)
        else (case route_loop Q (or_default (uri r) []) (the svcs) (with_host r) s1 of
           (Finished, r2, s3) \<Rightarrow> if True then snippet_loop Q run (the svcs) r2 s3 else (Finished, r2, s3)
         | stopped \<Rightarrow> stopped))"
    and d: "\<exists>s0 sch host. up s0 \<and> lookup_svcs Q sch host (or_default (uri r) []) s0 = (svcs, s1)"
    using hook_lookup [OF assms(1), of r run True] unfolding assms(3) option.case by blast
  obtain l where "svcs = Some l" using 1(3) by (cases svcs) (simp_all add: no_svcs_def)
  with d yieldsD [OF yields_lookup] have "distinct (the svcs)" by fastforce
  obtain r2 s2 where 2: "route_loop Q (or_default (uri r) []) (the svcs) (with_host r) s1 = (Finished, r2, s2)"
    "up s2" "members s2 = members s" "routed (members s) (members s 1 k) (or_default (uri r) []) r2"
    using route_loop_result [OF 1(1), of "the svcs" "members s 1 k" "or_default (uri r) []" "with_host r"]
      assms(2,4,5) 1(2,4) by auto
  obtain s3 where "snippet_loop Q run (the svcs) r2 s2
      = (Finished, fold (\<lambda>svc. effect (code_of svc)) (filter is_snippet (the svcs)) r2, s3)"
    using snippet_loop_result [OF 2(2), of "the svcs" code_of run effect r2] assms(6,7) 1(4) 2(3) by auto
  with 1(3-5) 2(1,4) \<open>distinct (the svcs)\<close> show ?thesis by auto
qed

end

text \<open>
  C22. With snippets enabled the hook first rewrites the request as without them, and then runs the
  server snippet of each snippet key under the routing key on the rewritten request, once each, in
  the order in which the server lists the keys. Assumed: the list of a set's members has no
  duplicates, the route has a service and all its services have well-formed addresses, each snippet key
  has one snippet, and the code of the snippets does not fail.
\<close>

theorem snippets_run:
  assumes "lua_sets Q members up" "up s" "addresses_ok (members s)"
    and "first_with (members s) (request_candidates r) = Some k"
    and "\<exists>svc \<in> members s 1 k. \<not> is_snippet svc"
    and "\<forall>svc \<in> members s 1 k. \<not> is_snippet svc \<longrightarrow> members s 0 svc \<noteq> {}"
    and "\<forall>svc \<in> members s 1 k. is_snippet svc \<longrightarrow> members s 1 svc = {code_of svc}"
    and "\<And>c r. run c r = Some (effect c r)"
  shows "\<exists>svcs r' s'. do_global_read_request Q run True r s
      = (Finished, fold (\<lambda>svc. effect (code_of svc)) (filter is_snippet svcs) r', s')
    \<and> distinct svcs \<and> set svcs = members s 1 k
    \<and> routed (members s) (members s 1 k) (or_default (uri r) []) r'"
  by (rule lua_sets.hook_snippets [OF assms(1)]) (fact assms)+

definition snippet_table :: mem_state where
  "snippet_table = mem_put 1 ''P+http://*.t.com/a'' [''ns:svc:80'', ''$ns/one/1'']
     (mem_put 1 ''$ns/one/1'' [''code''] (mem_put 0 ''ns:svc:80'' [''10.0.0.1#80#http''] mem_empty))"

lemma snippet_table_members:
  "mem_members snippet_table d k = (if d = 1 \<and> k = ''P+http://*.t.com/a'' then {''ns:svc:80'', ''$ns/one/1''}
     else if d = 1 \<and> k = ''$ns/one/1'' then {''code''}
     else if d = 0 \<and> k = ''ns:svc:80'' then {''10.0.0.1#80#http''} else {})"
  by (simp add: snippet_table_def mem_members_def mem_set_put) (simp add: mem_set_def mem_empty_def)

theorem snippets_run_witness:
  "\<exists>r' s'. do_global_read_request mem_lua (\<lambda>c r. Some (r\<lparr>cache_url := Some c\<rparr>)) True ex_request (snippet_table, 0)
      = (Finished, r', s') \<and> cache_url r' = Some ''code'' \<and> url_host r' = Some ''10.0.0.1''"
proof -
  let ?D = "mem_members snippet_table"
  have up: "conn_up (snippet_table, 0)" by (simp add: snippet_table_def mem_up_put)
  have k: "first_with (conn_members (snippet_table, 0)) (request_candidates ex_request) = Some ''P+http://*.t.com/a''"
    unfolding ex_request_candidates ex_candidates by (simp add: first_with_def snippet_table_members)
  have s: "split_on (CHR ''#'') ''10.0.0.1#80#http'' = [''10.0.0.1'', ''80'', ''http'']" by simp
  have a: "addresses_ok (conn_members (snippet_table, 0))"
    using s by (simp add: addresses_ok_def snippet_table_members)
  have svcs: "\<exists>svc \<in> conn_members (snippet_table, 0) 1 ''P+http://*.t.com/a''. \<not> is_snippet svc"
    "\<forall>svc \<in> conn_members (snippet_table, 0) 1 ''P+http://*.t.com/a''. \<not> is_snippet svc \<longrightarrow> conn_members (snippet_table, 0) 0 svc \<noteq> {}"
    "\<forall>svc \<in> conn_members (snippet_table, 0) 1 ''P+http://*.t.com/a''. is_snippet svc \<longrightarrow> conn_members (snippet_table, 0) 1 svc = {''code''}"
    by (simp_all add: snippet_table_members is_snippet_def string_sub_def take_Cons')
  obtain svcs r' s' where r': "do_global_read_request mem_lua (\<lambda>c r. Some (r\<lparr>cache_url := Some c\<rparr>)) True ex_request (snippet_table, 0)
      = (Finished, fold (\<lambda>svc r. r\<lparr>cache_url := Some ''code''\<rparr>) (filter is_snippet svcs) r', s')"
    "distinct svcs" "set svcs = ?D 1 ''P+http://*.t.com/a''" "routed ?D (?D 1 ''P+http://*.t.com/a'') (or_default (uri ex_request) []) r'"
    using snippets_run [OF mem_plugin.lua_sets_axioms, OF up a k svcs, of "\<lambda>c r. Some (r\<lparr>cache_url := Some c\<rparr>)"
        "\<lambda>c r. r\<lparr>cache_url := Some c\<rparr>"] by auto
  have "url_host r' = Some ''10.0.0.1''" using r'(4) s by (auto simp: routed_def snippet_table_members)
  moreover have "filter is_snippet svcs = [''$ns/one/1'']"
  proof -
    have "is_snippet ''$ns/one/1''" "\<not> is_snippet ''ns:svc:80''"
      by (simp_all add: is_snippet_def string_sub_def take_Cons')
    moreover have "set svcs = {''ns:svc:80'', ''$ns/one/1''}" using r'(3) by (simp add: snippet_table_members)
    ultimately have "set (filter is_snippet svcs) = {''$ns/one/1''}" unfolding set_filter by auto
    moreover have "distinct (filter is_snippet svcs)" using r'(2) by simp
    ultimately show ?thesis by (rule distinct_one [rotated])
  qed
  ultimately show ?thesis using r'(1) by simp
qed

end
