(* ===== verification/System.thy ===== *)
theory System
  imports Main_Program Router_Properties
begin

text \<open>
  The system as a whole: what holds when \<open>main\<close> has started the watcher, what the tables hold after
  any events, and where the plugin then sends a request.
\<close>

section \<open>The start\<close>

definition started_client :: Client where
  "started_client = \<lparr>DefaultDB = Some (unix_options 0), DBOne = Some (unix_options 1)\<rparr>"

definition started_watcher :: "(string \<Rightarrow> string) \<Rightarrow> flags \<Rightarrow> Watcher" where
  "started_watcher U f = main_watcher f (main_endpoint U f started_client)"

lemma started_open: "client_open (RedisClient (Ep (started_watcher U f)))"
  using unix_client_open by (simp add: started_watcher_def main_watcher_def main_endpoint_def started_client_def)

lemma started_manager: "ATSManager_of (Ep (started_watcher U f)) =
    Some (ATS \<lparr>ATSNamespace = atsNamespace f, IngressClass = atsIngressClass f\<rparr>)"
  by (simp add: started_watcher_def main_watcher_def main_endpoint_def)

text \<open>The flags lead to clients: the configuration is read and accepted.\<close>

definition clients_ok :: "'c client_api \<Rightarrow> flags \<Rightarrow> bool" where
  "clients_ok C f \<longleftrightarrow> atsNamespace f \<noteq> [] \<and> (case main_config C f of
     Inl err \<Rightarrow> False | Inr config \<Rightarrow> NewForConfig C config = None \<and> NewDynamic C config = None)"

lemma main_start_Init:
  assumes "clients_ok C f" "Init (Redis_of P) s = (Some (Inr rClient), s')"
  shows "main_start C K P U f (s, k) =
    (case main_watch K P (main_watcher f (main_endpoint U f rClient)) k of (out, k') \<Rightarrow> (out, s', k'))"
  using assms by (auto simp: clients_ok_def main_start_def split: sum.splits)

lemma main_start_ready:
  assumes "redis_server (Redis_of P) members up" "up s" "clients_ok C f"
    and "informers K trace" "trace k = []"
    and "\<And>i h k. fst (AddEventHandler K i h k) = None"
    and "\<And>is k. fst (WaitForCacheSync K is k) = Some True"
  shows "\<exists>s' k'. main_start C K P U f (s, k) = (Start_running (started_watcher U f), s', k')
    \<and> up s' \<and> members s' = (\<lambda>_ _. {})
    \<and> (\<forall>src. handlers_of (trace k') (source_informer (resyncPeriod f) (atsNamespace f) src)
         = [source_handler P (Ep (started_watcher U f)) src])"
proof -
  let ?w = "started_watcher U f"
  obtain s' where s': "Init (Redis_of P) s = (Some (Inr started_client), s')" "up s'" "members s' = (\<lambda>_ _. {})"
    using Init_result [OF assms(1,2)] unfolding started_client_def by blast
  have w: "ResyncPeriod ?w = resyncPeriod f" by (simp add: started_watcher_def main_watcher_def)
  have watch: "fst (Watch K P ?w k) = Returned None
    \<and> handlers_of (trace (snd (Watch K P ?w k))) (source_informer (resyncPeriod f) (atsNamespace f) src)
      = [source_handler P (Ep ?w) src]" for src
    using Watch_started [OF assms(4) started_manager [of U f] assms(5-7), of P src] by (simp add: w)
  then obtain k' where k': "Watch K P ?w k = (Returned None, k')" by (metis prod.collapse)
  then have "main_watch K P ?w k = (Start_running ?w, k')" by (simp add: main_watch_def)
  then have "main_start C K P U f (s, k) = (Start_running ?w, s', k')"
    using main_start_Init [OF assms(3) s'(1), of K U k] by (simp add: started_watcher_def)
  with s'(2,3) watch k' show ?thesis by simp
qed

section \<open>Addresses\<close>

text \<open>The addresses of the API server contain no \<open>#\<close>.\<close>

fun ips_valid :: "k8s_obj \<Rightarrow> bool" where
  "ips_valid (EndpointsObj eps) = (\<forall>subset \<in> set (Subsets eps). \<forall>addr \<in> set (Addresses subset). CHR ''#'' \<notin> set (IP addr))"
| "ips_valid _ = True"

lemma in_concat_map: "x \<in> set (concat (map f ys)) \<longleftrightarrow> (\<exists>y \<in> set ys. x \<in> set (f y))"
  by auto

lemma watched_row_address:
  assumes "ips_valid ob" "(k, vs) \<in> set (watched_rows E ob)" "v \<in> set vs"
  shows "\<exists>host port scheme. split_on (CHR ''#'') v = [host, port, scheme]"
proof (cases "as_endpoints ob")
  case None
  with assms(2) show ?thesis by (simp add: watched_rows_def)
next
  case (Some eps)
  then have ob: "ob = EndpointsObj eps" by (cases ob) auto
  with assms(2) have "(k, vs) \<in> set (ep_rows eps)" by (simp add: watched_rows_def split: if_splits)
  then obtain subset where "subset \<in> set (Subsets eps)" "(k, vs) \<in> set (map (\<lambda>port.
      (ConstructSvcPortString (Namespace eps) (Name eps) (port_string (Port port)),
       map (\<lambda>addr. ConstructIPPortString (IP addr) (port_string (Port port)) (PortName port))
         (Addresses subset))) (Ports subset))"
    unfolding ep_rows_def in_concat_map by blast
  then obtain port :: EndpointPort where sp: "subset \<in> set (Subsets eps)"
    "vs = map (\<lambda>addr. ConstructIPPortString (IP addr) (port_string (Port port)) (PortName port)) (Addresses subset)"
    unfolding set_map image_iff prod.inject by blast
  with assms(3) obtain addr where addr: "addr \<in> set (Addresses subset)"
    "v = ConstructIPPortString (IP addr) (port_string (Port port)) (PortName port)" by auto
  with assms(1) sp(1) have "CHR ''#'' \<notin> set (IP addr)" unfolding ob by simp
  from ConstructIPPortString_fields [OF this] show ?thesis unfolding addr(2) by blast
qed

lemma addresses_ok_rows:
  assumes "addresses_ok D" "ips_valid ob"
  shows "addresses_ok (rows_add (watched_rows E ob) D)" "addresses_ok (rows_del (watched_rows E ob) D)"
    "addresses_ok (rows_set (watched_rows E ob) D)"
proof -
  note row = watched_row_address [OF assms(2)]
  show "addresses_ok (rows_add (watched_rows E ob) D)"
    using assms(1) row unfolding addresses_ok_def rows_add_def by fastforce
  show "addresses_ok (rows_del (watched_rows E ob) D)"
    using assms(1) unfolding addresses_ok_def rows_del_def by simp
  show "addresses_ok (rows_set (watched_rows E ob) D)"
    unfolding addresses_ok_def
  proof (intro allI impI)
    fix k v
    assume v: "v \<in> rows_set (watched_rows E ob) D 0 k"
    show "\<exists>host port scheme. split_on (CHR ''#'') v = [host, port, scheme]"
    proof (cases "map_of (rev (watched_rows E ob)) k")
      case None
      with v assms(1) show ?thesis by (simp add: rows_set_def addresses_ok_def)
    next
      case (Some vs)
      then have "(k, vs) \<in> set (watched_rows E ob)" by (metis map_of_SomeD set_rev)
      moreover have "v \<in> set vs" using v Some by (simp add: rows_set_def)
      ultimately show ?thesis by (rule row)
    qed
  qed
qed

text \<open>The endpoints handler keeps database 0 a table of addresses.\<close>

lemma EpHandler_addresses:
  assumes c: "controller_redis R members up E"
  shows "event_handler (EpHandler R E) (\<lambda>ob. ep_valid ob \<and> ips_valid ob)
    (\<lambda>s. (up s \<and> temp_clean 0 (members s)) \<and> addresses_ok (members s))"
proof -
  have sep: "event_handler (EpHandler R E) ep_valid (\<lambda>s. up s \<and> temp_clean 0 (members s))"
    using c by (rule controller_redis.EpHandler_contract)
  show ?thesis
  proof
    fix ob s
    assume ob: "ep_valid ob \<and> ips_valid ob" and s: "(up s \<and> temp_clean 0 (members s)) \<and> addresses_ok (members s)"
    show "\<exists>s'. Add (EpHandler R E) ob s = Ok s' \<and> (up s' \<and> temp_clean 0 (members s')) \<and> addresses_ok (members s')"
      using event_handler.Add_inv [OF sep] ob s addresses_ok_rows(1)
        refinesD [OF controller_redis.EpHandler_Add_refines [OF c], of s ob] by (fastforce simp: EpHandler_def)
    show "\<exists>s'. Delete (EpHandler R E) ob s = Ok s' \<and> (up s' \<and> temp_clean 0 (members s')) \<and> addresses_ok (members s')"
      using event_handler.Delete_inv [OF sep] ob s addresses_ok_rows(2)
        refinesD [OF controller_redis.EpHandler_Delete_refines [OF c], of s ob] by (fastforce simp: EpHandler_def)
  next
    fix ob newOb s
    assume "ep_valid newOb \<and> ips_valid newOb" and s: "(up s \<and> temp_clean 0 (members s)) \<and> addresses_ok (members s)"
    then show "\<exists>s'. Update (EpHandler R E) ob newOb s = Ok s' \<and> (up s' \<and> temp_clean 0 (members s')) \<and> addresses_ok (members s')"
      using refinesD [OF controller_redis.EpHandler_Update_refines [OF c, of newOb ob], of s]
        addresses_ok_rows(3) by (fastforce simp: EpHandler_def)
  qed
qed

section \<open>From the start to the tables\<close>

lemma endpoints_run_addresses:
  assumes "redis_server R members up" "client_open (RedisClient E)" "up s"
    and "temp_clean 0 (members s)" "addresses_ok (members s)"
    and "list_all (\<lambda>ev. list_all (\<lambda>ob. ep_valid ob \<and> ips_valid ob) (event_objects ev)) evs"
  shows "\<exists>s'. deliver_all (EpHandler R E) evs s = Ok s' \<and> addresses_ok (members s')"
  using event_handler.deliver_all_inv [OF EpHandler_addresses [OF controller_redisI [OF assms(1,2)]] assms(6)]
    assms(3-5) by blast

lemma empty_tables:
  "temp_clean d (\<lambda>_ _. {})" "table_ok {} (\<lambda>_ _. {})" "addresses_ok (\<lambda>_ _. {})" "exclusive {}"
  by (simp_all add: temp_clean_def table_ok_def addresses_ok_def exclusive_def)

text \<open>The endpoints events of a run carry addresses without the separator.\<close>

definition addresses_valid :: "(source \<times> k8s_obj event) list \<Rightarrow> bool" where
  "addresses_valid evs \<longleftrightarrow> list_all (\<lambda>ev. list_all ips_valid (event_objects ev)) (events_of Endpoints_source evs)"

lemma tables_after:
  assumes "redis_server (Redis_of P) members up" "client_open (RedisClient E)" "up s" "members s = (\<lambda>_ _. {})"
    and "range_order (Range_order P)" "valid_events E evs" "addresses_valid evs" "managed c a"
    and "table_run E {} (events_of Ingresses_source evs) L"
  shows "\<exists>s' a'. controller_run P E evs (s, a) = Ok (s', a') \<and> up s' \<and> table_ok L (members s')
    \<and> addresses_ok (members s')"
proof -
  have clean: "temp_clean 0 (members s)" "temp_clean 1 (members s)" "table_ok {} (members s)" "addresses_ok (members s)"
    by (simp_all add: assms(4) empty_tables)
  obtain s' a' t u where r: "controller_run P E evs (s, a) = Ok (s', a')" "up s'"
    "deliver_all (IgHandler (Range_order P) (Redis_of P) E) (events_of Ingresses_source evs) s = Ok t"
    "members s' 1 = members t 1"
    "deliver_all (EpHandler (Redis_of P) E) (events_of Endpoints_source evs) s = Ok u"
    "members s' 0 = members u 0"
    using controller_run_result [OF assms(1-3,5,6) clean(1,2) assms(8)] by blast
  have "table_ok L (members t)"
    using deliver_all_table [OF assms(1-3,5,9) empty_tables(4) clean(3)] r(3) by simp
  moreover have "addresses_ok (members u)"
    using endpoints_run_addresses [OF assms(1-3) clean(1,4), of "events_of Endpoints_source evs"]
      events_of_valid [OF assms(6), of Endpoints_source] assms(7) r(5)
    by (simp add: addresses_valid_def source_valid_funs list_all_iff)
  ultimately have "table_ok L (members s')" "addresses_ok (members s')"
    by (simp_all add: table_ok_def addresses_ok_def temp_clean_def r(4,6))
  with r(1,2) show ?thesis by blast
qed

section \<open>Properties\<close>

text \<open>
  C18. When the flags name a namespace and the cluster's configuration is usable, Redis answers and
  every informer syncs, \<open>main\<close> gets to its signal loop with the watcher running. By then each
  informer has the handler of its resource and no other, over the namespaces and the ingress class of
  the flags. The handlers have started on empty databases, whatever Redis held before; the valid events that
  the informers have delivered since then, or deliver later, end in no panic, and the ingress and endpoints
  events among them have given databases 1 and 0 their contents.
\<close>

theorem main_ready:
  assumes "redis_server (Redis_of P) members up" "up s" "clients_ok C f"
    and "informers K trace" "trace k = []"
    and "\<And>i h k. fst (AddEventHandler K i h k) = None"
    and "\<And>is k. fst (WaitForCacheSync K is k) = Some True"
    and "range_order (Range_order P)" "valid_events (Ep (started_watcher U f)) evs"
    and "managed (atsIngressClass f) a"
  shows "\<exists>s' k' s2 a2 t u. main_start C K P U f (s, k) = (Start_running (started_watcher U f), s', k')
    \<and> (\<forall>src. handlers_of (trace k') (source_informer (resyncPeriod f) (atsNamespace f) src)
         = [source_handler P (Ep (started_watcher U f)) src])
    \<and> members s' = (\<lambda>_ _. {})
    \<and> controller_run P (Ep (started_watcher U f)) evs (s', a) = Ok (s2, a2) \<and> up s2
    \<and> deliver_all (IgHandler (Range_order P) (Redis_of P) (Ep (started_watcher U f)))
        (events_of Ingresses_source evs) s' = Ok t \<and> members s2 1 = members t 1
    \<and> deliver_all (EpHandler (Redis_of P) (Ep (started_watcher U f)))
        (events_of Endpoints_source evs) s' = Ok u \<and> members s2 0 = members u 0"
proof -
  obtain s' k' where 1: "main_start C K P U f (s, k) = (Start_running (started_watcher U f), s', k')"
    "up s'" "members s' = (\<lambda>_ _. {})"
    "\<forall>src. handlers_of (trace k') (source_informer (resyncPeriod f) (atsNamespace f) src)
       = [source_handler P (Ep (started_watcher U f)) src]"
    using main_start_ready [OF assms(1-7)] by blast
  have clean: "temp_clean 0 (members s')" "temp_clean 1 (members s')" by (simp_all add: 1(3) empty_tables)
  show ?thesis
    using controller_run_result [OF assms(1) started_open 1(2) assms(8,9) clean assms(10)] 1 by blast
qed

definition mem_clients :: "unit client_api" where
  "mem_clients = \<lparr>BuildConfigFromFlags = (\<lambda>_ _. Inl ''no such file''), InClusterConfig = Inr (),
     NewForConfig = (\<lambda>_. None), NewDynamic = (\<lambda>_. None)\<rparr>"

lemma mem_clients_ok: "clients_ok mem_clients default_flags"
  by (simp add: clients_ok_def main_config_def mem_clients_def default_flags_def)

lemma mem_outside_redis: "redis_server (Redis_of mem_outside) mem_members mem_up"
  using mem.redis_server_axioms by (simp add: mem_outside_def)

lemma mem_client_go_total:
  "fst (AddEventHandler (mem_client_go []) i h k) = None" "fst (WaitForCacheSync (mem_client_go []) infs k) = Some True"
  by (simp_all add: mem_client_go_def)

text \<open>
  C1. From the start of the program to its tables: after \<open>main\<close> has started and the informers have
  delivered any events in any order (on valid objects, no two live ingresses claiming the same routing
  key), no handler has panicked, database 1 is the routing table of the live ingresses the controller
  handles, and database 0 holds well-formed addresses only.
\<close>

theorem system_tables:
  assumes "redis_server (Redis_of P) members up" "up s" "clients_ok C f"
    and "informers K trace" "trace k = []"
    and "\<And>i h k. fst (AddEventHandler K i h k) = None"
    and "\<And>is k. fst (WaitForCacheSync K is k) = Some True"
    and "range_order (Range_order P)" "valid_events (Ep (started_watcher U f)) evs" "addresses_valid evs"
    and "table_run (Ep (started_watcher U f)) {} (events_of Ingresses_source evs) L"
    and "managed (atsIngressClass f) a"
  shows "\<exists>w s1 k1 s2 a2. main_start C K P U f (s, k) = (Start_running w, s1, k1)
    \<and> controller_run P (Ep w) evs (s1, a) = Ok (s2, a2) \<and> up s2
    \<and> table_ok L (members s2) \<and> addresses_ok (members s2)"
proof -
  obtain s1 k1 where 1: "main_start C K P U f (s, k) = (Start_running (started_watcher U f), s1, k1)"
    "up s1" "members s1 = (\<lambda>_ _. {})"
    using main_start_ready [OF assms(1-7)] by blast
  with tables_after [OF assms(1) started_open 1(2,3) assms(8-10,12,11)] show ?thesis by blast
qed

definition ex_start :: Endpoint where
  "ex_start = Ep (started_watcher (\<lambda>s. s) default_flags)"

definition ex_start_events :: "(source \<times> k8s_obj event) list" where
  "ex_start_events = [(Ingresses_source, AddEvent (IngressObj ig_one)),
     (Endpoints_source, AddEvent (EndpointsObj ep_example))]"

lemma ex_start_facts:
  "watched_ingress ex_start (IngressObj ig_one) = Some ig_one" "ig_safe ex_start (IngressObj ig_one)"
  by code_simp+

lemma ex_start_run: "table_run ex_start {} (events_of Ingresses_source ex_start_events) {ig_one}"
proof -
  have "table_step ex_start {} (AddEvent (IngressObj ig_one)) {ig_one}"
    using table_step.added [of ex_start "IngressObj ig_one" "{}"]
    by (simp add: ex_start_facts handled_set_def exclusive_def ex_routes)
  then show ?thesis
    by (simp add: events_of_def ex_start_events_def table_run_simps)
qed

lemma ex_start_valid: "valid_events ex_start ex_start_events" "addresses_valid ex_start_events"
  by (simp_all add: valid_events_def addresses_valid_def events_of_def ex_start_events_def ex_start_facts
      ep_example_def)

theorem main_ready_witness:
  "\<exists>s' k' s2 a2. main_start mem_clients (mem_client_go []) mem_outside (\<lambda>s. s) default_flags (ex_table, [])
      = (Start_running (started_watcher (\<lambda>s. s) default_flags), s', k')
    \<and> mem_members s' = (\<lambda>_ _. {})
    \<and> controller_run mem_outside ex_start ex_start_events (s', (Some ex_manager, mem_disk_empty)) = Ok (s2, a2)"
proof -
  have o: "range_order (Range_order mem_outside)" by (simp add: mem_outside_def)
  have m: "managed (atsIngressClass default_flags) (Some ex_manager, mem_disk_empty)"
    by (simp add: ex_manager_def default_flags_def)
  show ?thesis
    using main_ready [OF mem_outside_redis, OF ex_table_up(1) mem_clients_ok mem_informers.informers_axioms refl
        mem_client_go_total o ex_start_valid(1) [unfolded ex_start_def] m] unfolding ex_start_def by blast
qed

theorem system_tables_witness:
  "\<exists>w s1 k1 s2 a2. main_start mem_clients (mem_client_go []) mem_outside (\<lambda>s. s) default_flags (ex_table, [])
      = (Start_running w, s1, k1)
    \<and> controller_run mem_outside (Ep w) ex_start_events (s1, (Some ex_manager, mem_disk_empty)) = Ok (s2, a2)
    \<and> mem_up s2 \<and> table_ok {ig_one} (mem_members s2) \<and> addresses_ok (mem_members s2)"
proof -
  have o: "range_order (Range_order mem_outside)" by (simp add: mem_outside_def)
  have m: "managed (atsIngressClass default_flags) (Some ex_manager, mem_disk_empty)"
    by (simp add: ex_manager_def default_flags_def)
  show ?thesis
    by (rule system_tables [OF mem_outside_redis ex_table_up(1) mem_clients_ok mem_informers.informers_axioms refl
          mem_client_go_total o ex_start_valid(1) [unfolded ex_start_def] ex_start_valid(2)
          ex_start_run [unfolded ex_start_def] m])
qed

section \<open>From the tables to a request\<close>

lemma candidate_key: "k \<in> set (request_candidates r) \<Longrightarrow> is_route_key k"
  by (auto simp: request_candidates_def route_candidates_def host_candidates_def exact_key_def prefix_key_def
      is_route_key_def split: option.splits)

lemma route_service:
  assumes "(k, sp) \<in> set (ig_routes ig)"
  obtains svc where "sp = service_port (Namespace ig) svc"
  using assms
  by (auto simp: ig_routes_def default_routes_def path_routes_def rule_routes_def path_route_def
      split: option.splits)

lemma is_snippet_iff: "is_snippet v \<longleftrightarrow> (\<exists>w. v = CHR ''$'' # w)"
  by (cases v) (auto simp: is_snippet_def string_sub_def take_Cons')

lemma service_not_snippet:
  assumes "(k, sp) \<in> set (ig_routes ig)" "CHR ''$'' \<notin> set (Namespace ig)"
  shows "\<not> is_snippet sp"
proof -
  obtain svc where "sp = service_port (Namespace ig) svc" by (rule route_service [OF assms(1)])
  with assms(2) show ?thesis
    by (cases "Namespace ig") (auto simp: is_snippet_iff service_port_def ConstructSvcPortString_def)
qed

lemma entry_iff: "(k, v) \<in> set (route_entries ig) \<longleftrightarrow> (\<exists>sp. (k, sp) \<in> set (ig_routes ig) \<and> v \<in> set (route_vals ig sp))"
  unfolding route_entries_def by fastforce

lemma routed_mono:
  assumes "routed D S path r" "\<And>v. v \<in> S \<Longrightarrow> \<not> is_snippet v \<Longrightarrow> v \<in> S'"
  shows "routed D S' path r"
  using assms unfolding routed_def by blast

lemma table_members:
  assumes "table_ok L D" "is_route_key k" "\<forall>ig \<in> L. CHR ''$'' \<notin> set (Namespace ig)"
  shows "{v \<in> D 1 k. \<not> is_snippet v} = {sp. \<exists>ig \<in> L. (k, sp) \<in> set (ig_routes ig)}"
    and "D 1 k \<noteq> {} \<longleftrightarrow> (\<exists>ig \<in> L. k \<in> route_keys ig)"
proof -
  have D: "D 1 k = {v. \<exists>ig \<in> L. \<exists>sp. (k, sp) \<in> set (ig_routes ig) \<and> v \<in> set (route_vals ig sp)}"
    using table_okD(2) [OF assms(1,2)] by (simp add: entry_iff)
  have key: "k \<in> route_keys ig \<longleftrightarrow> (\<exists>sp. (k, sp) \<in> set (ig_routes ig))" for ig
    by (force simp: route_keys_def)
  have val: "sp \<in> set (route_vals ig sp)" for ig sp by (simp add: route_vals_def)
  have "is_snippet (ig_nameversion ig)" for ig :: Ingress
    by (simp add: is_snippet_iff ig_nameversion_def ConstructNameVersionString_def)
  then show "{v \<in> D 1 k. \<not> is_snippet v} = {sp. \<exists>ig \<in> L. (k, sp) \<in> set (ig_routes ig)}"
    unfolding D using service_not_snippet assms(3) by (fastforce simp: route_vals_def split: if_splits)
  show "D 1 k \<noteq> {} \<longleftrightarrow> (\<exists>ig \<in> L. k \<in> route_keys ig)"
    unfolding D using key val by blast
qed

lemma find_cong_set: "(\<And>x. x \<in> set xs \<Longrightarrow> P x = P' x) \<Longrightarrow> List.find P xs = List.find P' xs"
  by (induction xs) auto

text \<open>
  C2. From the tables to a request, with snippets disabled: a request whose host and path some live
  ingress claims is sent to an address of a service of such an ingress. The route is the first of the
  request's candidate keys that a live ingress has, the address is one that database 0 holds for the
  service, and the path is kept. Assumed: every service that a live ingress has under this key has an
  address, the addresses are well-formed, and, as Kubernetes guarantees, no namespace contains a \<open>$\<close>.
\<close>

theorem live_route_served:
  assumes "lua_client Q members up" "up s" "table_ok L (members s)" "addresses_ok (members s)"
    and "\<forall>ig \<in> L. CHR ''$'' \<notin> set (Namespace ig)"
    and "List.find (\<lambda>k. \<exists>ig \<in> L. k \<in> route_keys ig) (request_candidates r) = Some k"
    and "\<forall>ig \<in> L. \<forall>svc. (k, svc) \<in> set (ig_routes ig) \<longrightarrow> members s 0 svc \<noteq> {}"
  shows "\<exists>r' s'. do_global_read_request Q run False r s = (Finished, r', s')
    \<and> routed (members s) {svc. \<exists>ig \<in> L. (k, svc) \<in> set (ig_routes ig)} (or_default (uri r) []) r'"
proof -
  have "k \<in> set (request_candidates r)" "\<exists>ig \<in> L. k \<in> route_keys ig"
    using assms(6) by (auto simp: find_Some_iff)
  then have k: "is_route_key k" by (simp add: candidate_key)
  note svcs = table_members(1) [OF assms(3) k assms(5)]
  have "first_with (members s) (request_candidates r) = Some k"
    unfolding first_with_def assms(6) [symmetric]
    by (rule find_cong_set) (rule table_members(2) [OF assms(3) candidate_key assms(5)])
  moreover have "\<exists>svc \<in> members s 1 k. \<not> is_snippet svc"
    using \<open>\<exists>ig \<in> L. k \<in> route_keys ig\<close> svcs unfolding route_keys_def by fastforce
  moreover have "\<forall>svc \<in> members s 1 k. \<not> is_snippet svc \<longrightarrow> members s 0 svc \<noteq> {}"
    using svcs assms(7) by blast
  ultimately obtain r' s' where "do_global_read_request Q run False r s = (Finished, r', s')"
    "routed (members s) (members s 1 k) (or_default (uri r) []) r'"
    using lua_client.hook_routes [OF assms(1,2,4), of r k run] by blast
  with routed_mono [of "members s" "members s 1 k"] svcs show ?thesis by blast
qed

definition live_table :: mem_state where
  "live_table = mem_put 1 ''P+http://t.com/'' [''ns:svc4:80'']
     (mem_put 0 ''ns:svc4:80'' [''10.0.0.9#80#https''] mem_empty)"

lemma live_table_members:
  "mem_members live_table d k = (if d = 1 \<and> k = ''P+http://t.com/'' then {''ns:svc4:80''}
     else if d = 0 \<and> k = ''ns:svc4:80'' then {''10.0.0.9#80#https''} else {})"
  by (simp add: live_table_def mem_members_def mem_set_put) (simp add: mem_set_def mem_empty_def)

lemma ig_two_routes: "ig_routes ig_two = [(''P+http://t.com/'', ''ns:svc4:80'')]"
  "route_entries ig_two = [(''P+http://t.com/'', ''ns:svc4:80'')]" "snippet_entries ig_two = []"
  "Namespace ig_two = ''ns''"
  by code_simp+

definition live_request :: client_request where
  "live_request = \<lparr>url_scheme = None, url_host = Some ''t.com'', url_port = None, uri = Some ''/x'',
     http_version = ''1.1'', pristine_url = ''http://t.com/x'', cache_url = None, skip_remapping = False\<rparr>"

theorem live_route_served_witness:
  "\<exists>r' s'. do_global_read_request mem_lua (\<lambda>_ r. Some r) False live_request (live_table, 0) = (Finished, r', s')
    \<and> url_host r' = Some ''10.0.0.9'' \<and> url_port r' = Some ''80'' \<and> url_scheme r' = Some ''https''"
proof -
  have up: "conn_up (live_table, 0)" by (simp add: live_table_def mem_up_put)
  have tab: "table_ok {ig_two} (conn_members (live_table, 0))"
    by (rule table_okI) (auto simp: temp_clean_def is_temp_def live_table_members ig_two_routes)
  have s: "split_on (CHR ''#'') ''10.0.0.9#80#https'' = [''10.0.0.9'', ''80'', ''https'']" by simp
  have adr: "addresses_ok (conn_members (live_table, 0))" using s by (simp add: addresses_ok_def live_table_members)
  have ns: "\<forall>ig \<in> {ig_two}. CHR ''$'' \<notin> set (Namespace ig)" by (simp add: ig_two_routes)
  have svc: "\<forall>ig \<in> {ig_two}. \<forall>svc. (''P+http://t.com/'', svc) \<in> set (ig_routes ig) \<longrightarrow> conn_members (live_table, 0) 0 svc \<noteq> {}"
    by (simp add: ig_two_routes live_table_members)
  have cands: "request_candidates live_request = [''E+http://t.com/x'', ''P+http://t.com/x'', ''P+http://t.com/'',
      ''E+http://*.com/x'', ''P+http://*.com/x'', ''P+http://*.com/'', ''E+http://*/x'', ''P+http://*/x'', ''P+http://*/'']"
    by code_simp
  have key: "List.find (\<lambda>k. \<exists>ig \<in> {ig_two}. k \<in> route_keys ig) (request_candidates live_request) = Some ''P+http://t.com/''"
    unfolding cands by (simp add: ex_keys)
  obtain r' s' where r': "do_global_read_request mem_lua (\<lambda>_ r. Some r) False live_request (live_table, 0) = (Finished, r', s')"
    "routed (conn_members (live_table, 0)) {svc. \<exists>ig \<in> {ig_two}. (''P+http://t.com/'', svc) \<in> set (ig_routes ig)}
      (or_default (uri live_request) []) r'"
    using live_route_served [OF mem_plugin.lua_client_axioms, OF up tab adr ns key svc] by blast
  then show ?thesis using s by (auto simp: routed_def ig_two_routes live_table_members)
qed

end
