(* ===== verification/Json_Writer.thy ===== *)
theory Json_Writer
  imports Proxy Files
begin

text \<open>
  The rest of \<open>util/util.go\<close>: \<open>Writer\<close>, which keeps a JSON file up to date, and two formatting
  functions. The controller itself does not use them. The calls of package \<open>os\<close> are the parameter
  \<open>os_api\<close> with the laws of the locale \<open>os_files\<close>; an open file is a descriptor. The lock of a writer
  serialises its calls, which the model has one after the other anyway.
\<close>

section \<open>Open files\<close>

record 's os_api =
  Stat :: "string \<Rightarrow> 's \<Rightarrow> read_error option \<times> 's"
  MkdirAll :: "string \<Rightarrow> nat \<Rightarrow> 's \<Rightarrow> string option \<times> 's"
  OpenFile :: "string \<Rightarrow> nat \<Rightarrow> 's \<Rightarrow> (string + nat) \<times> 's"
  Truncate :: "nat \<Rightarrow> nat \<Rightarrow> 's \<Rightarrow> string option \<times> 's"
  Seek :: "nat \<Rightarrow> nat \<Rightarrow> 's \<Rightarrow> string option \<times> 's"
  Write_file :: "nat \<Rightarrow> string \<Rightarrow> 's \<Rightarrow> string option \<times> 's"
  Sync_file :: "nat \<Rightarrow> 's \<Rightarrow> string option \<times> 's"
  Close_file :: "nat \<Rightarrow> 's \<Rightarrow> 's"

text \<open>
  \<open>opened s fd\<close>: path and offset of an open file. On a healthy system every call succeeds.
\<close>

locale os_files =
  fixes S :: "'s os_api"
    and content :: "'s \<Rightarrow> string \<Rightarrow> string option"
    and has_dir :: "'s \<Rightarrow> string \<Rightarrow> bool"
    and opened :: "'s \<Rightarrow> nat \<Rightarrow> (string \<times> nat) option"
    and healthy :: "'s \<Rightarrow> bool"
  assumes stat_ok: "healthy s \<Longrightarrow> \<exists>r s'. Stat S d s = (r, s') \<and> healthy s' \<and> content s' = content s
      \<and> has_dir s' d = has_dir s d \<and> r = (if has_dir s d then None else Some NotExist)"
    and mkdir_ok: "healthy s \<Longrightarrow> \<exists>s'. MkdirAll S d perm s = (None, s') \<and> healthy s' \<and> content s' = content s
      \<and> has_dir s' d"
    and open_ok: "\<lbrakk>healthy s; has_dir s d; CHR ''/'' \<notin> set f\<rbrakk> \<Longrightarrow>
      \<exists>fd s'. OpenFile S (d @ ''/'' @ f) perm s = (Inr fd, s') \<and> healthy s'
        \<and> content s' = (content s)(d @ ''/'' @ f \<mapsto> (case content s (d @ ''/'' @ f) of None \<Rightarrow> [] | Some c \<Rightarrow> c))
        \<and> opened s' fd = Some (d @ ''/'' @ f, 0)"
    and truncate_ok: "\<lbrakk>healthy s; opened s fd = Some (p, pos)\<rbrakk> \<Longrightarrow>
      \<exists>s'. Truncate S fd 0 s = (None, s') \<and> healthy s' \<and> content s' = (content s)(p \<mapsto> [])
        \<and> opened s' fd = Some (p, pos)"
    and seek_ok: "\<lbrakk>healthy s; opened s fd = Some (p, pos)\<rbrakk> \<Longrightarrow>
      \<exists>s'. Seek S fd off s = (None, s') \<and> healthy s' \<and> content s' = content s \<and> opened s' fd = Some (p, off)"
    and write_ok: "\<lbrakk>healthy s; opened s fd = Some (p, pos); content s p = Some c; pos \<le> length c\<rbrakk> \<Longrightarrow>
      \<exists>s'. Write_file S fd data s = (None, s') \<and> healthy s'
        \<and> content s' = (content s)(p \<mapsto> take pos c @ data @ drop (pos + length data) c)"
    and sync_ok: "healthy s \<Longrightarrow> \<exists>s'. Sync_file S fd s = (None, s') \<and> healthy s' \<and> content s' = content s"
    and close_ok: "healthy (Close_file S fd s) = healthy s \<and> content (Close_file S fd s) = content s"

section \<open>The writer\<close>

record Writer =
  DirPath :: string
  FileName :: string

definition Perm :: nat where
  "Perm = 493"

lemma Perm_octal: "Perm = 7 * 8 ^ 2 + 5 * 8 + 5"
  by (simp add: Perm_def power2_eq_square)

definition CreateFileIfNotExist :: "'s os_api \<Rightarrow> Writer \<Rightarrow> 's \<Rightarrow> (string + nat) \<times> 's" where
  "CreateFileIfNotExist S w s =
     (case (case Stat S (DirPath w) s of
              (None, s1) \<Rightarrow> (None, s1)
            | (Some NotExist, s1) \<Rightarrow> MkdirAll S (DirPath w) Perm s1
            | (Some (ReadError e), s1) \<Rightarrow> (Some e, s1)) of
        (Some err, s2) \<Rightarrow> (Inl err, s2)
      | (None, s2) \<Rightarrow> OpenFile S (DirPath w @ ''/'' @ FileName w) Perm s2)"

text \<open>
  \<open>marshal\<close> is \<open>json.MarshalIndent\<close> with a tab. Once the file is open it is closed on every way out.
\<close>

definition write_open_file :: "'s os_api \<Rightarrow> ('o \<Rightarrow> string + string) \<Rightarrow> nat \<Rightarrow> 'o \<Rightarrow> 's \<Rightarrow> string option \<times> 's" where
  "write_open_file S marshal file obj s =
     (case marshal obj of
        Inl jsonErr \<Rightarrow> (Some jsonErr, s)
      | Inr text \<Rightarrow>
          (case Truncate S file 0 s of
             (Some err, s1) \<Rightarrow> (Some err, s1)
           | (None, s1) \<Rightarrow>
               (case Seek S file 0 s1 of
                  (Some err, s2) \<Rightarrow> (Some err, s2)
                | (None, s2) \<Rightarrow>
                    (case Write_file S file text s2 of
                       (Some writeErr, s3) \<Rightarrow> (Some writeErr, s3)
                     | (None, s3) \<Rightarrow>
                         (case Sync_file S file s3 of
                            (Some syncErr, s4) \<Rightarrow> (Some syncErr, s4)
                          | (None, s4) \<Rightarrow> (None, s4))))))"

definition SyncWriteJSONFile :: "'s os_api \<Rightarrow> ('o \<Rightarrow> string + string) \<Rightarrow> Writer \<Rightarrow> 'o \<Rightarrow> 's \<Rightarrow> string option \<times> 's" where
  "SyncWriteJSONFile S marshal w obj s =
     (case CreateFileIfNotExist S w s of
        (Inl err, s1) \<Rightarrow> (Some err, s1)
      | (Inr file, s1) \<Rightarrow>
          (case write_open_file S marshal file obj s1 of (err, s2) \<Rightarrow> (err, Close_file S file s2)))"

text \<open>\<open>%v\<close> and, for bytes, \<open>%q\<close>.\<close>

definition Itos :: "('o \<Rightarrow> string) \<Rightarrow> 'o \<Rightarrow> string" where
  "Itos sprint_v obj = sprint_v obj"

definition FmtMarshalled :: "(string \<Rightarrow> string) \<Rightarrow> string \<Rightarrow> string" where
  "FmtMarshalled U marshalled = quote U marshalled"

context os_files
begin

lemma create_ok:
  assumes "healthy s" "CHR ''/'' \<notin> set (FileName w)"
  shows "\<exists>fd s'. CreateFileIfNotExist S w s = (Inr fd, s') \<and> healthy s'
    \<and> content s' = (content s)(DirPath w @ ''/'' @ FileName w \<mapsto>
        (case content s (DirPath w @ ''/'' @ FileName w) of None \<Rightarrow> [] | Some c \<Rightarrow> c))
    \<and> opened s' fd = Some (DirPath w @ ''/'' @ FileName w, 0)"
proof -
  obtain s1 where s1: "Stat S (DirPath w) s = (if has_dir s (DirPath w) then None else Some NotExist, s1)"
    "healthy s1" "content s1 = content s" "has_dir s1 (DirPath w) = has_dir s (DirPath w)"
    using stat_ok [OF assms(1), of "DirPath w"] by blast
  obtain s2 where s2: "(case Stat S (DirPath w) s of
              (None, s1) \<Rightarrow> (None, s1)
            | (Some NotExist, s1) \<Rightarrow> MkdirAll S (DirPath w) Perm s1
            | (Some (ReadError e), s1) \<Rightarrow> (Some e, s1)) = (None, s2)"
    "healthy s2" "content s2 = content s" "has_dir s2 (DirPath w)"
    using s1 mkdir_ok [OF s1(2), of "DirPath w" Perm] by (cases "has_dir s (DirPath w)") auto
  from open_ok [OF s2(2,4) assms(2), of Perm] show ?thesis
    unfolding CreateFileIfNotExist_def s2(1) s2(3) by simp
qed

lemma write_open_ok:
  assumes "healthy s" "opened s fd = Some (p, pos)" "marshal obj = Inr data"
  shows "\<exists>s'. write_open_file S marshal fd obj s = (None, s') \<and> healthy s' \<and> content s' = (content s)(p \<mapsto> data)"
proof -
  obtain s1 where 1: "Truncate S fd 0 s = (None, s1)" "healthy s1" "content s1 = (content s)(p \<mapsto> [])"
    "opened s1 fd = Some (p, pos)"
    using truncate_ok [OF assms(1,2)] by blast
  obtain s2 where 2: "Seek S fd 0 s1 = (None, s2)" "healthy s2" "content s2 = content s1" "opened s2 fd = Some (p, 0)"
    using seek_ok [OF 1(2,4)] by blast
  have "content s2 p = Some []" by (simp add: 2 1)
  then obtain s3 where 3: "Write_file S fd data s2 = (None, s3)" "healthy s3"
    "content s3 = (content s2)(p \<mapsto> take 0 [] @ data @ drop (0 + length data) [])"
    using write_ok [OF 2(2,4), of "[]" data] by auto
  obtain s4 where 4: "Sync_file S fd s3 = (None, s4)" "healthy s4" "content s4 = content s3"
    using sync_ok [OF 3(2)] by blast
  have "content s4 = (content s)(p \<mapsto> data)" by (simp add: 4(3) 3(3) 2(3) 1(3))
  with 1(1) 2(1) 3(1) 4(1,2) assms(3) show ?thesis by (simp add: write_open_file_def)
qed

end

section \<open>An in-memory system\<close>

text \<open>Descriptors are positions in a list that only grows; nothing fails.\<close>

record mem_os =
  os_dirs :: "string list"
  os_content :: "(string, string) gomap"
  os_open :: "(string \<times> nat) list"

definition with_fd :: "nat \<Rightarrow> (string \<times> nat \<Rightarrow> mem_os \<Rightarrow> mem_os) \<Rightarrow> mem_os \<Rightarrow> string option \<times> mem_os" where
  "with_fd fd f s = (if fd < length (os_open s) then (None, f (os_open s ! fd) s) else (Some ''bad file descriptor'', s))"

definition mem_os_api :: "mem_os os_api" where
  "mem_os_api = \<lparr>
     Stat = (\<lambda>d s. (if d \<in> set (os_dirs s) then None else Some NotExist, s)),
     MkdirAll = (\<lambda>d perm s. (None, s\<lparr>os_dirs := d # os_dirs s\<rparr>)),
     OpenFile = (\<lambda>p perm s. (Inr (length (os_open s)), s\<lparr>os_open := os_open s @ [(p, 0)],
       os_content := gm_set p (case gm_get (os_content s) p of None \<Rightarrow> [] | Some c \<Rightarrow> c) (os_content s)\<rparr>)),
     Truncate = (\<lambda>fd n. with_fd fd (\<lambda>(p, pos) s. s\<lparr>os_content := gm_set p
       (take n (case gm_get (os_content s) p of None \<Rightarrow> [] | Some c \<Rightarrow> c)) (os_content s)\<rparr>)),
     Seek = (\<lambda>fd off. with_fd fd (\<lambda>(p, pos) s. s\<lparr>os_open := (os_open s)[fd := (p, off)]\<rparr>)),
     Write_file = (\<lambda>fd data s. if fd < length (os_open s) then (case os_open s ! fd of (p, pos) \<Rightarrow>
       (None, s\<lparr>os_content := gm_set p (let c = (case gm_get (os_content s) p of None \<Rightarrow> [] | Some c \<Rightarrow> c)
          in take pos c @ data @ drop (pos + length data) c) (os_content s),
          os_open := (os_open s)[fd := (p, pos + length data)]\<rparr>)) else (None, s)),
     Sync_file = (\<lambda>fd s. (None, s)),
     Close_file = (\<lambda>fd s. s)\<rparr>"

definition mem_opened :: "mem_os \<Rightarrow> nat \<Rightarrow> (string \<times> nat) option" where
  "mem_opened s fd = (if fd < length (os_open s) then Some (os_open s ! fd) else None)"

interpretation mem_writer: os_files mem_os_api "\<lambda>s. gm_get (os_content s)" "\<lambda>s d. d \<in> set (os_dirs s)"
    mem_opened "\<lambda>_. True"
  by unfold_locales
    (auto simp: mem_os_api_def mem_opened_def with_fd_def gomap_simps nth_append Let_def
      split: prod.splits if_splits)

section \<open>Properties\<close>

text \<open>
  C37. Writing an object replaces the file: whatever the file held before, also when it was longer or
  neither it nor its directory existed, afterwards it holds exactly the marshalled object, and no
  other file has changed. When the object cannot be marshalled the old content stays; only a missing
  file has been created, empty.
\<close>

theorem SyncWriteJSONFile_replaces:
  assumes "os_files S content has_dir opened healthy" "healthy s" "CHR ''/'' \<notin> set (FileName w)"
  shows "\<exists>err s'. SyncWriteJSONFile S marshal w obj s = (err, s') \<and> healthy s'
    \<and> (case marshal obj of
         Inr data \<Rightarrow> err = None \<and> content s' = (content s)(DirPath w @ ''/'' @ FileName w \<mapsto> data)
       | Inl jsonErr \<Rightarrow> err = Some jsonErr \<and> content s' = (content s)(DirPath w @ ''/'' @ FileName w \<mapsto>
           (case content s (DirPath w @ ''/'' @ FileName w) of None \<Rightarrow> [] | Some c \<Rightarrow> c)))"
proof -
  let ?p = "DirPath w @ ''/'' @ FileName w"
  obtain fd s1 where 1: "CreateFileIfNotExist S w s = (Inr fd, s1)" "healthy s1"
    "content s1 = (content s)(?p \<mapsto> (case content s ?p of None \<Rightarrow> [] | Some c \<Rightarrow> c))"
    "opened s1 fd = Some (?p, 0)"
    using os_files.create_ok [OF assms] by blast
  note close = os_files.close_ok [OF assms(1), of fd]
  show ?thesis
  proof (cases "marshal obj")
    case (Inl jsonErr)
    then have "write_open_file S marshal fd obj s1 = (Some jsonErr, s1)" by (simp add: write_open_file_def)
    with 1 Inl close [of s1] show ?thesis by (simp add: SyncWriteJSONFile_def)
  next
    case (Inr data)
    obtain s2 where 2: "write_open_file S marshal fd obj s1 = (None, s2)" "healthy s2"
      "content s2 = (content s1)(?p \<mapsto> data)"
      using os_files.write_open_ok [where marshal = marshal and obj = obj, OF assms(1) 1(2,4) Inr] by blast
    then have "content s2 = (content s)(?p \<mapsto> data)" by (simp add: 1(3))
    with 1(1) 2(1,2) Inr close [of s2] show ?thesis by (simp add: SyncWriteJSONFile_def)
  qed
qed

theorem SyncWriteJSONFile_replaces_witness:
  "\<exists>s'. SyncWriteJSONFile mem_os_api Inr \<lparr>DirPath = ''d'', FileName = ''f''\<rparr> ''{}''
      \<lparr>os_dirs = [], os_content = [(''d/f'', ''[1,2,3]'')], os_open = []\<rparr> = (None, s')
    \<and> gm_get (os_content s') ''d/f'' = Some ''{}''"
  using SyncWriteJSONFile_replaces [OF mem_writer.os_files_axioms TrueI, of "\<lparr>DirPath = ''d'', FileName = ''f''\<rparr>"
      Inr "''{}''" "\<lparr>os_dirs = [], os_content = [(''d/f'', ''[1,2,3]'')], os_open = []\<rparr>"]
  by auto

end
