(* ===== verification/Cache_Runs.thy ===== *)
theory Cache_Runs
  imports Cache_Properties
begin

text \<open>
  Whole runs of the caching policy handler. The abstract state is the list of rules in force, which
  the events of the API server move along the step relation \<open>cache_step\<close>; \<open>cache.config\<close> is at every
  moment the lines written by hand followed by one line for each of these rules. The documented effect of
  the policies is the step relation \<open>policy_step\<close> on a table of rules, which \<open>cache_step\<close> simulates.
\<close>

section \<open>The rules in force\<close>

type_synonym rule = "string \<times> string \<times> string"

text \<open>The rule a new object puts in the place of one in force: its last one with the same key.\<close>

definition keyed :: "rule list \<Rightarrow> (string \<times> rule) list" where
  "keyed rs = map (\<lambda>r. (rule_key r, r)) rs"

definition newest :: "rule list \<Rightarrow> rule \<Rightarrow> rule" where
  "newest new r = (case map_of (rev (keyed new)) (rule_key r) of None \<Rightarrow> r | Some r' \<Rightarrow> r')"

text \<open>The keys a deletion looks for, one for each type of the policy's rules.\<close>

definition deleted_keys :: "(string \<times> string) list \<Rightarrow> string list" where
  "deleted_keys tps = map (\<lambda>(t, q). cache_key t q) (patternsToDelete tps)"

text \<open>A key occurs in the lines of the file only where a rule with that key is.\<close>

definition exact :: "string list \<Rightarrow> rule list \<Rightarrow> string list \<Rightarrow> bool" where
  "exact base rs ks \<longleftrightarrow> list_all (\<lambda>k. list_all (\<lambda>line. \<not> contains line k) base
     \<and> list_all (\<lambda>r. contains (cache_line r) k \<longrightarrow> rule_key r = k) rs) ks"

definition writable :: "rule list \<Rightarrow> bool" where
  "writable rs \<longleftrightarrow> list_all (\<lambda>r. one_line (cache_line r)) rs"

inductive cache_step :: "unstructured_lib \<Rightarrow> string list \<Rightarrow> rule list \<Rightarrow> k8s_obj event \<Rightarrow> rule list \<Rightarrow> bool"
  for lib base where
  added: "\<lbrakk>policy_rules lib ''rules'' ob = Some rules; writable (cache_rules lib rules);
     distinct (map rule_key (rs @ cache_rules lib rules))\<rbrakk>
    \<Longrightarrow> cache_step lib base rs (AddEvent ob) (rs @ cache_rules lib rules)"
| updated: "\<lbrakk>policy_rules lib ''rules'' newOb = Some rules; writable (cache_rules lib rules);
     exact base (rs @ cache_rules lib rules) (map rule_key (cache_rules lib rules))\<rbrakk>
    \<Longrightarrow> cache_step lib base rs (UpdateEvent ob newOb) (map (newest (cache_rules lib rules)) rs)"
| deleted: "\<lbrakk>policy_rules lib ''rules'' ob = Some rules;
     exact base rs (deleted_keys (delete_rules lib rules))\<rbrakk>
    \<Longrightarrow> cache_step lib base rs (DeleteEvent ob)
          (filter (\<lambda>r. rule_key r \<notin> set (deleted_keys (delete_rules lib rules))) rs)"
| no_rules: "\<lbrakk>policy_valid ob; policy_rules lib ''rules'' ob = None;
     ev \<in> {AddEvent ob, UpdateEvent oldOb ob, DeleteEvent ob}\<rbrakk>
    \<Longrightarrow> cache_step lib base rs ev rs"

inductive cache_run :: "unstructured_lib \<Rightarrow> string list \<Rightarrow> rule list \<Rightarrow> k8s_obj event list \<Rightarrow> rule list \<Rightarrow> bool"
  for lib base where
  run_Nil: "cache_run lib base rs [] rs"
| run_Cons: "cache_step lib base rs ev rs1 \<Longrightarrow> cache_run lib base rs1 evs rs'
    \<Longrightarrow> cache_run lib base rs (ev # evs) rs'"

inductive_simps cache_run_simps: "cache_run lib base rs [] rs'" "cache_run lib base rs (ev # evs) rs'"

definition rules_ok :: "rule list \<Rightarrow> bool" where
  "rules_ok rs \<longleftrightarrow> writable rs \<and> distinct (map rule_key rs)"

definition config_file :: "string list \<Rightarrow> rule list \<Rightarrow> string" where
  "config_file base rs = text_of (base @ map cache_line rs)"

section \<open>Each step is what the handler does to the file\<close>

lemma newest_simps:
  "newest [] r = r"
  "newest (n # new) r = newest new (if rule_key r = rule_key n then n else r)"
  by (auto simp: newest_def keyed_def map_add_def split: option.split)

lemma newest_key [simp]: "rule_key (newest new r) = rule_key r"
  by (induction new arbitrary: r) (auto simp: newest_simps)

lemma newest_cases: "newest new r = r \<or> newest new r \<in> set new"
proof (induction new arbitrary: r)
  case Nil
  then show ?case by (simp add: newest_simps)
next
  case (Cons n new)
  show ?case using Cons.IH [of "if rule_key r = rule_key n then n else r"] by (auto simp: newest_simps(2))
qed

lemma exactD:
  assumes "exact base rs ks" "k \<in> set ks"
  shows "line \<in> set base \<Longrightarrow> \<not> contains line k"
    and "r \<in> set rs \<Longrightarrow> contains (cache_line r) k \<longleftrightarrow> rule_key r = k"
  using assms line_contains_key [of r] by (auto simp: exact_def list_all_iff)

lemma rule_key_nonempty [simp]: "rule_key r \<noteq> []"
  by (cases r) (simp add: rule_key_def cache_key_def)

lemma replace_line_skip:
  "\<forall>line \<in> set xs. \<not> contains line key \<Longrightarrow> replace_line key new (xs @ ys) = xs @ replace_line key new ys"
  by (induction xs) auto

lemma replace_line_rules:
  assumes "distinct (map rule_key rs)" "\<And>r. r \<in> set rs \<Longrightarrow> contains (cache_line r) (rule_key n) \<longleftrightarrow> rule_key r = rule_key n"
  shows "replace_line (rule_key n) (cache_line n) (map cache_line rs @ [[]])
    = map cache_line (map (\<lambda>r. if rule_key r = rule_key n then n else r) rs) @ [[]]"
  using assms
proof (induction rs)
  case (Cons r rs)
  show ?case
  proof (cases "rule_key r = rule_key n")
    case True
    with Cons.prems(1) have "rule_key q \<noteq> rule_key n" if "q \<in> set rs" for q using that by (metis distinct.simps(2) image_eqI list.set_map list.simps(9))
    then have "map (\<lambda>r. if rule_key r = rule_key n then n else r) rs = rs" by (simp add: map_idI)
    with True Cons.prems(2) [of r] show ?thesis by simp
  next
    case False
    with Cons show ?thesis by simp
  qed
qed simp

lemma fold_update_newest:
  assumes "exact base (rs @ new) (map rule_key new)" "distinct (map rule_key rs)"
  shows "fold update_rule new (base @ map cache_line rs @ [[]]) = base @ map cache_line (map (newest new) rs) @ [[]]"
proof -
  have "fold update_rule ns (base @ map cache_line qs @ [[]]) = base @ map cache_line (map (newest ns) qs) @ [[]]"
    if "set ns \<subseteq> set new" "set qs \<subseteq> set rs \<union> set new" "distinct (map rule_key qs)" for ns qs
    using that
  proof (induction ns arbitrary: qs)
    case Nil
    then show ?case by (simp add: newest_simps(1) cong: map_cong)
  next
    case (Cons n ns)
    let ?qs = "map (\<lambda>r. if rule_key r = rule_key n then n else r) qs"
    have n: "rule_key n \<in> set (map rule_key new)" using Cons.prems(1) by auto
    have "replace_line (rule_key n) (cache_line n) (map cache_line qs @ [[]]) = map cache_line ?qs @ [[]]"
      by (rule replace_line_rules [OF Cons.prems(3)], rule exactD(2) [OF assms(1) n])
        (use Cons.prems(2) in auto)
    then have "update_rule n (base @ map cache_line qs @ [[]]) = base @ map cache_line ?qs @ [[]]"
      using replace_line_skip [of base "rule_key n"] exactD(1) [OF assms(1) n] unfolding update_rule_line by metis
    moreover have "map rule_key ?qs = map rule_key qs" by (induction qs) auto
    then have d: "distinct (map rule_key ?qs)" using Cons.prems(3) by (simp only:)
    moreover have sub: "set ns \<subseteq> set new" "set ?qs \<subseteq> set rs \<union> set new" using Cons.prems(1,2) by auto
    moreover have "map (newest ns) ?qs = map (newest (n # ns)) qs" by (simp add: newest_simps(2))
    ultimately show ?case using Cons.IH [OF sub d] by simp
  qed
  from this [of new rs] show ?thesis using assms(2) by simp
qed

lemma condemned_keys: "condemned tps line \<longleftrightarrow> (\<exists>k \<in> set (deleted_keys tps). contains line k)"
proof -
  have "map_of (rev tps) t = Some q \<longleftrightarrow> (t, q) \<in> set (patternsToDelete tps)" for t q
    using patternsToDelete_wf [of tps] unfolding gm_wf_def patternsToDelete_get [symmetric]
    by (rule map_of_eq_Some_iff)
  then show ?thesis by (simp add: condemned_def deleted_keys_def Bex_def)
qed

lemma filter_condemned:
  assumes "exact base rs (deleted_keys tps)"
  shows "filter (\<lambda>line. \<not> condemned tps line) (base @ map cache_line rs)
    = base @ map cache_line (filter (\<lambda>r. rule_key r \<notin> set (deleted_keys tps)) rs)"
proof -
  have "filter (\<lambda>line. \<not> condemned tps line) base = base"
    using exactD(1) [OF assms] by (auto simp: condemned_keys intro!: filter_True)
  moreover have "condemned tps (cache_line r) \<longleftrightarrow> rule_key r \<in> set (deleted_keys tps)" if "r \<in> set rs" for r
    using exactD(2) [OF assms _ that] by (auto simp: condemned_keys)
  ultimately show ?thesis by (simp add: filter_map o_def cong: filter_cong)
qed

lemma cache_step_ok:
  assumes "cache_step lib base rs ev rs'" "rules_ok rs"
  shows "rules_ok rs'"
  using assms
proof cases
  case (updated newOb rules ob)
  let ?new = "cache_rules lib rules"
  have "map rule_key rs' = map rule_key rs" by (simp add: updated)
  then have "distinct (map rule_key rs')" using assms(2) by (simp only: rules_ok_def)
  moreover have "one_line (cache_line (newest ?new r))" if "r \<in> set rs" for r
    using newest_cases [of ?new r] updated assms(2) that by (auto simp: rules_ok_def writable_def list_all_iff)
  ultimately show ?thesis unfolding rules_ok_def by (simp add: writable_def list_all_iff updated(2))
qed (auto simp: rules_ok_def writable_def distinct_map_filter list_all_iff)

context ats_files
begin

lemma no_rules_delivered:
  assumes "policy_valid ob" "policy_rules lib ''rules'' ob = None"
    and "ev \<in> {AddEvent ob, UpdateEvent oldOb ob, DeleteEvent ob}" "healthy s" "content s path = Some d"
  shows "\<exists>s'. deliver (AtsCacheHandler ord lib F env path) ev (Some m, s) = Ok (Some m, s') \<and> healthy s'
    \<and> content s' = content s"
  using assms read_ok [OF assms(4), of path]
  by (auto simp: policy_valid_def policy_rules_def AtsCacheHandler_def AtsCacheHandler_Add_def
      AtsCacheHandler_Update_def AtsCacheHandler_Delete_def Let_def split: nested.splits)

lemma cache_step_delivered:
  assumes "cache_step lib base rs ev rs'" "rules_ok rs" "list_all one_line base" "range_order ord"
    and "healthy s" "content s path = Some (config_file base rs)"
  shows "\<exists>m' s'. deliver (AtsCacheHandler ord lib F env path) ev (Some m, s) = Ok (Some m', s') \<and> healthy s'
    \<and> content s' = (content s)(path \<mapsto> config_file base rs')"
proof -
  have lines: "list_all one_line (base @ map cache_line rs)"
    using assms(2,3) by (auto simp: rules_ok_def writable_def list_all_iff)
  note split = split_text_of [OF lines, folded config_file_def]
  show ?thesis
    using assms(1)
  proof cases
    case (added ob rules)
    then show ?thesis
      using Add_effect [OF assms(5), of lib ob rules path m] assms(6)
      by (simp add: AtsCacheHandler_def config_file_def text_of_append)
  next
    case (updated newOb rules ob)
    have "fold update_rule (cache_rules lib rules) (base @ map cache_line rs @ [[]])
        = base @ map cache_line rs' @ [[]]"
      unfolding updated(2) by (rule fold_update_newest [OF updated(5)]) (use assms(2) in \<open>simp add: rules_ok_def\<close>)
    then have "join_with newline (fold update_rule (cache_rules lib rules) (split_on newline (config_file base rs)))
        = config_file base rs'"
      using join_lines [of "base @ map cache_line rs'"] unfolding split by (simp add: config_file_def)
    with Update_effect [OF assms(5) updated(3) assms(6), of ob m] show ?thesis
      by (simp add: AtsCacheHandler_def updated(1))
  next
    case (deleted ob rules)
    have "join_with newline (filter (\<lambda>line. \<not> condemned (delete_rules lib rules) line)
        (split_on newline (config_file base rs))) = config_file base rs'"
      unfolding split filter_append [of _ "base @ map cache_line rs"] filter_condemned [OF deleted(4)]
      by (simp add: join_lines config_file_def deleted(2) del: append_assoc filter_append)
    with Delete_effect [OF assms(5) deleted(3) assms(6), of ord m] show ?thesis
      unfolding condemned_iff [OF assms(4)] by (simp add: AtsCacheHandler_def deleted(1))
  next
    case (no_rules ob oldOb)
    with no_rules_delivered [OF no_rules(2-4) assms(5,6), of ord m] assms(6) show ?thesis
      by (auto simp: fun_upd_idem)
  qed
qed

lemma cache_run_delivered:
  assumes "cache_run lib base rs evs rs'" "rules_ok rs" "list_all one_line base" "range_order ord"
    and "healthy s" "content s path = Some (config_file base rs)"
  shows "\<exists>m' s'. deliver_all (AtsCacheHandler ord lib F env path) evs (Some m, s) = Ok (Some m', s')
    \<and> healthy s' \<and> rules_ok rs' \<and> content s' = (content s)(path \<mapsto> config_file base rs')"
  using assms
proof (induction arbitrary: m s rule: cache_run.induct)
  case (run_Nil rs)
  then show ?case by (auto simp: deliver_all_def skip_def fun_upd_idem)
next
  case (run_Cons rs ev rs1 evs rs')
  obtain m1 s1 where 1: "deliver (AtsCacheHandler ord lib F env path) ev (Some m, s) = Ok (Some m1, s1)"
    "healthy s1" "content s1 = (content s)(path \<mapsto> config_file base rs1)"
    using cache_step_delivered [OF run_Cons.hyps(1) run_Cons.prems, of m] by blast
  have "content s1 path = Some (config_file base rs1)" by (simp add: 1(3))
  then obtain m' s' where 2: "deliver_all (AtsCacheHandler ord lib F env path) evs (Some m1, s1) = Ok (Some m', s')"
    "healthy s'" "rules_ok rs'" "content s' = (content s1)(path \<mapsto> config_file base rs')"
    using run_Cons.IH [OF cache_step_ok [OF run_Cons.hyps(1) run_Cons.prems(1)] run_Cons.prems(2,3) 1(2), of m1]
    by blast
  then have "content s' = (content s)(path \<mapsto> config_file base rs')" by (simp add: 1(3))
  moreover have "deliver_all (AtsCacheHandler ord lib F env path) (ev # evs) (Some m, s) = Ok (Some m', s')"
    using 1(1) 2(1) by (simp add: deliver_all_def seq_def)
  ultimately show ?case using 2(2,3) by blast
qed

end

section \<open>The documented effect\<close>

text \<open>
  What the operations are documented to do, over the table of the rules in force, a map from type and
  pattern to the rule: a policy adds its rules, a new version takes the place of the old one, a deletion
  takes out all rules of the policy. The conditions are the cases in which the code does this:
  added rules are for new types and patterns; a new version has rules for the types and patterns of the
  old one; the rules of a deleted policy have different types and are complete; and no type and pattern occurs
  in a line other than its rule's.
\<close>

definition rule_table :: "rule list \<Rightarrow> string \<Rightarrow> rule option" where
  "rule_table rs = map_of (keyed rs)"

definition rule_keys :: "rule list \<Rightarrow> string set" where
  "rule_keys rs = rule_key ` set rs"

definition unmixed :: "string list \<Rightarrow> rule set \<Rightarrow> string set \<Rightarrow> bool" where
  "unmixed base R ks \<longleftrightarrow> (\<forall>k \<in> ks. (\<forall>line \<in> set base. \<not> contains line k)
     \<and> (\<forall>r \<in> R. contains (cache_line r) k \<longrightarrow> rule_key r = k))"

definition complete_rules :: "unstructured_lib \<Rightarrow> json list \<Rightarrow> bool" where
  "complete_rules lib rules \<longleftrightarrow> delete_rules lib rules = map (\<lambda>(t, q, ttl). (t, q)) (cache_rules lib rules)"

inductive policy_step :: "unstructured_lib \<Rightarrow> string list \<Rightarrow> (string \<Rightarrow> rule option) \<Rightarrow> k8s_obj event
    \<Rightarrow> (string \<Rightarrow> rule option) \<Rightarrow> bool"
  for lib base where
  policy_added: "\<lbrakk>policy_rules lib ''rules'' ob = Some rules; new = cache_rules lib rules; writable new;
     distinct (map rule_key new); rule_keys new \<inter> dom T = {}\<rbrakk>
    \<Longrightarrow> policy_step lib base T (AddEvent ob) (T ++ rule_table new)"
| policy_updated: "\<lbrakk>policy_rules lib ''rules'' ob = Some old_rules; policy_rules lib ''rules'' newOb = Some rules;
     old = cache_rules lib old_rules; new = cache_rules lib rules; writable new; distinct (map rule_key new);
     rule_keys new = rule_keys old; rule_keys old \<subseteq> dom T; unmixed base (ran T \<union> set new) (rule_keys new)\<rbrakk>
    \<Longrightarrow> policy_step lib base T (UpdateEvent ob newOb) (T |` (- rule_keys old) ++ rule_table new)"
| policy_deleted: "\<lbrakk>policy_rules lib ''rules'' ob = Some rules; old = cache_rules lib rules;
     complete_rules lib rules; distinct (map fst old); unmixed base (ran T) (rule_keys old)\<rbrakk>
    \<Longrightarrow> policy_step lib base T (DeleteEvent ob) (T |` (- rule_keys old))"
| policy_without_rules: "\<lbrakk>policy_valid ob; policy_rules lib ''rules'' ob = None;
     ev \<in> {AddEvent ob, DeleteEvent ob}\<rbrakk> \<Longrightarrow> policy_step lib base T ev T"

inductive policy_run :: "unstructured_lib \<Rightarrow> string list \<Rightarrow> (string \<Rightarrow> rule option) \<Rightarrow> k8s_obj event list
    \<Rightarrow> (string \<Rightarrow> rule option) \<Rightarrow> bool"
  for lib base where
  policy_run_Nil: "policy_run lib base T [] T"
| policy_run_Cons: "policy_step lib base T ev T1 \<Longrightarrow> policy_run lib base T1 evs T'
    \<Longrightarrow> policy_run lib base T (ev # evs) T'"

inductive_simps policy_run_simps: "policy_run lib base T [] T'" "policy_run lib base T (ev # evs) T'"

text \<open>The step relation of the handler simulates the documented one.\<close>

lemma rule_table_simps:
  "rule_table [] = Map.empty" "rule_table (r # rs) = (rule_table rs)(rule_key r \<mapsto> r)"
  by (simp_all add: rule_table_def keyed_def)

lemma rule_table_append: "rule_table (rs @ rs') = rule_table rs' ++ rule_table rs"
  by (simp add: rule_table_def keyed_def)

lemma dom_rule_table: "dom (rule_table rs) = rule_keys rs"
  by (auto simp: rule_table_def keyed_def rule_keys_def dom_map_of_conv_image_fst image_image)

lemma rule_table_Some:
  assumes "distinct (map rule_key rs)"
  shows "rule_table rs k = Some r \<longleftrightarrow> r \<in> set rs \<and> rule_key r = k"
proof -
  have "distinct (map fst (keyed rs))" using assms by (simp add: keyed_def comp_def)
  then show ?thesis by (auto simp: rule_table_def map_of_eq_Some_iff) (auto simp: keyed_def)
qed

lemma rule_table_key: "rule_table rs k = Some r \<Longrightarrow> rule_key r = k"
  by (induction rs) (auto simp: rule_table_simps split: if_splits)

lemma ran_rule_table: "distinct (map rule_key rs) \<Longrightarrow> ran (rule_table rs) = set rs"
  by (auto simp: ran_def rule_table_Some)

lemma rule_table_filter:
  "rule_table (filter (\<lambda>r. rule_key r \<notin> ks) rs) = rule_table rs |` (- ks)"
  by (induction rs) (auto simp: rule_table_simps fun_eq_iff restrict_map_def)

lemma newest_table:
  assumes "distinct (map rule_key new)"
  shows "newest new r = (case rule_table new (rule_key r) of None \<Rightarrow> r | Some r' \<Rightarrow> r')"
proof -
  have "distinct (map fst (keyed new))" using assms by (simp add: keyed_def comp_def)
  then have "map_of (rev (keyed new)) = map_of (keyed new)"
    by (intro ext) (metis map_of_eq_Some_iff distinct_rev rev_map set_rev not_Some_eq)
  then show ?thesis by (simp add: newest_def rule_table_def)
qed

lemma rule_table_newest:
  assumes "distinct (map rule_key new)" "rule_keys new \<subseteq> dom (rule_table rs)"
  shows "rule_table (map (newest new) rs) = rule_table rs |` (- rule_keys new) ++ rule_table new"
proof -
  have "rule_table (map (newest new) rs) k = map_option (newest new) (rule_table rs k)" for k
    by (induction rs) (simp_all add: rule_table_simps)
  then have get: "rule_table (map (newest new) rs) k =
      (case rule_table rs k of None \<Rightarrow> None | Some r \<Rightarrow>
        (case rule_table new k of None \<Rightarrow> Some r | Some r' \<Rightarrow> Some r'))" for k
    using rule_table_key [of rs k] by (auto simp: newest_table [OF assms(1)] split: option.split)
  have key: "k \<in> rule_keys new \<longleftrightarrow> rule_table new k \<noteq> None" for k
    unfolding dom_rule_table [symmetric] domIff ..
  have old: "rule_table rs k \<noteq> None" if "rule_table new k \<noteq> None" for k
    using assms(2) key [of k] that by blast
  have *: "rule_table (map (newest new) rs) k = (rule_table rs |` (- rule_keys new) ++ rule_table new) k" for k
  proof (cases "rule_table new k")
    case None
    then have "k \<notin> rule_keys new" using key [of k] by simp
    then show ?thesis using get [of k] None by (cases "rule_table rs k") (simp_all add: map_add_def restrict_map_def)
  next
    case (Some r')
    then have "rule_table rs k \<noteq> None" using old [of k] by blast
    then show ?thesis using get [of k] Some by (cases "rule_table rs k") (simp_all add: map_add_def)
  qed
  show ?thesis by (rule ext) (rule *)
qed

lemma deleted_keys_complete:
  assumes "complete_rules lib rules" "distinct (map fst (cache_rules lib rules))"
  shows "set (deleted_keys (delete_rules lib rules)) = rule_keys (cache_rules lib rules)"
proof -
  let ?tps = "delete_rules lib rules"
  have "map fst ?tps = map fst (cache_rules lib rules)"
    using assms(1) by (simp add: complete_rules_def case_prod_beta)
  then have d: "distinct (map fst ?tps)" using assms(2) by simp
  have "(t, q) \<in> set (patternsToDelete ?tps) \<longleftrightarrow> (t, q) \<in> set ?tps" for t q
  proof -
    have "(t, q) \<in> set (patternsToDelete ?tps) \<longleftrightarrow> map_of (rev ?tps) t = Some q"
      using patternsToDelete_wf [of ?tps] unfolding gm_wf_def patternsToDelete_get [symmetric]
      by (rule map_of_eq_Some_iff [symmetric])
    also have "\<dots> \<longleftrightarrow> (t, q) \<in> set ?tps" using d by (simp add: map_of_eq_Some_iff rev_map [symmetric])
    finally show ?thesis .
  qed
  then have "set (deleted_keys ?tps) = (\<lambda>(t, q). cache_key t q) ` set ?tps"
    unfolding deleted_keys_def by auto
  also have "\<dots> = rule_keys (cache_rules lib rules)"
    using assms(1) by (force simp: complete_rules_def rule_keys_def rule_key_def image_image)
  finally show ?thesis .
qed

lemma unmixed_exact: "unmixed base (set rs) (set ks) \<Longrightarrow> exact base rs ks"
  by (simp add: unmixed_def exact_def list_all_iff)

lemma policy_step_simulated:
  assumes "policy_step lib base T ev T'" "rules_ok rs" "rule_table rs = T"
  shows "\<exists>rs'. cache_step lib base rs ev rs' \<and> rule_table rs' = T'"
proof -
  have distinct: "distinct (map rule_key rs)" using assms(2) by (simp add: rules_ok_def)
  note ran = ran_rule_table [OF distinct, unfolded assms(3)]
    and dom = dom_rule_table [of rs, unfolded assms(3)]
  show ?thesis
    using assms(1)
  proof cases
    case (policy_added ob rules new)
    have disj: "rule_keys new \<inter> rule_keys rs = {}" using policy_added dom by simp
    then have "distinct (map rule_key (rs @ new))"
      using distinct policy_added by (auto simp: rule_keys_def)
    then have "cache_step lib base rs ev (rs @ new)"
      using cache_step.added [of lib ob rules rs base] policy_added by simp
    moreover have "rule_table new ++ T = T ++ rule_table new"
      using disj dom by (intro map_add_comm) (simp add: dom_rule_table)
    ultimately show ?thesis using policy_added assms(3) by (auto simp: rule_table_append)
  next
    case (policy_updated ob old_rules newOb rules old new)
    have "exact base (rs @ new) (map rule_key new)"
      by (rule unmixed_exact) (use policy_updated ran in \<open>simp add: rule_keys_def\<close>)
    then have "cache_step lib base rs ev (map (newest new) rs)"
      using cache_step.updated [of lib newOb rules base rs ob] policy_updated by simp
    with rule_table_newest [of new rs] policy_updated assms(3) show ?thesis by auto
  next
    case (policy_deleted ob rules old)
    have keys: "set (deleted_keys (delete_rules lib rules)) = rule_keys old"
      using deleted_keys_complete [of lib rules] policy_deleted by simp
    have "exact base rs (deleted_keys (delete_rules lib rules))"
      by (rule unmixed_exact) (use policy_deleted keys ran in simp)
    then have "cache_step lib base rs ev (filter (\<lambda>r. rule_key r \<notin> rule_keys old) rs)"
      using cache_step.deleted [of lib ob rules base rs] policy_deleted keys by simp
    then show ?thesis using policy_deleted assms(3) rule_table_filter by blast
  next
    case (policy_without_rules ob)
    then show ?thesis using cache_step.no_rules [of ob lib ev undefined base rs] assms(3) by auto
  qed
qed

lemma policy_run_simulated:
  assumes "policy_run lib base T evs T'" "rules_ok rs" "rule_table rs = T"
  shows "\<exists>rs'. cache_run lib base rs evs rs' \<and> rule_table rs' = T'"
  using assms
proof (induction arbitrary: rs rule: policy_run.induct)
  case (policy_run_Nil T)
  then show ?case by (auto simp: cache_run_simps)
next
  case (policy_run_Cons T ev T1 evs T')
  obtain rs1 where 1: "cache_step lib base rs ev rs1" "rule_table rs1 = T1"
    using policy_step_simulated [OF policy_run_Cons.hyps(1) policy_run_Cons.prems] by blast
  from policy_run_Cons.IH [OF cache_step_ok [OF 1(1) policy_run_Cons.prems(1)] 1(2)] 1(1)
  show ?case by (auto simp: cache_run_simps)
qed

section \<open>Properties\<close>

text \<open>
  C7. On a healthy disk, after any events that act on the table of the rules in force as documented
  (a policy adds its rules, a new version of it replaces them, its deletion takes them out), no
  event has ended in a panic, \<open>cache.config\<close> holds the lines written by hand and one line for each rule
  of the resulting table, and no other file has changed. The conditions on the events, spelled out in
  \<open>policy_step\<close>, are: added rules are for new types and patterns, a new version has rules for the types and
  patterns of the old one, the rules of a deleted policy have different types and are complete (each has
  a type, a pattern and a time), and no type and pattern occurs in a line other than its rule's.
  Policies without rules may be added and deleted.
\<close>

theorem AtsCacheHandler_run_file:
  assumes "ats_files F content healthy env" "range_order ord"
    and "policy_run lib base (rule_table rs) evs T" "rules_ok rs" "list_all one_line base"
    and "healthy s" "content s path = Some (config_file base rs)"
  shows "\<exists>m' s' rs'. deliver_all (AtsCacheHandler ord lib F env path) evs (Some m, s) = Ok (Some m', s')
    \<and> healthy s' \<and> rules_ok rs' \<and> rule_table rs' = T
    \<and> content s' = (content s)(path \<mapsto> config_file base rs')"
proof -
  obtain rs' where rs': "cache_run lib base rs evs rs'" "rule_table rs' = T"
    using policy_run_simulated [OF assms(3,4) refl] by blast
  with ats_files.cache_run_delivered [OF assms(1) rs'(1) assms(4,5,2,6,7), of m] show ?thesis by blast
qed

definition ex_cache_events :: "k8s_obj event list" where
  "ex_cache_events = [AddEvent (ex_policy [ex_rule ''url_regex'' ''a'' ''2h'', ex_rule ''dest_ip'' ''1.1'' ''1d'']),
     AddEvent (ex_policy [ex_rule ''url_regex'' ''b'' ''3h'']),
     UpdateEvent (ex_policy [ex_rule ''url_regex'' ''b'' ''3h'']) (ex_policy [ex_rule ''url_regex'' ''b'' ''9h'']),
     DeleteEvent (ex_policy [ex_rule ''url_regex'' ''a'' ''2h'', ex_rule ''dest_ip'' ''1.1'' ''1d''])]"

lemma ex_cache_run:
  "policy_run plain_lib [''# x''] (rule_table []) ex_cache_events (rule_table [(''url_regex'', ''b'', ''9h'')])"
proof -
  let ?rs = "[ex_rule ''url_regex'' ''a'' ''2h'', ex_rule ''dest_ip'' ''1.1'' ''1d'']"
    and ?bs = "[ex_rule ''url_regex'' ''b'' ''3h'']" and ?cs = "[ex_rule ''url_regex'' ''b'' ''9h'']"
  let ?a = "(''url_regex'', ''a'', ''2h'')" and ?ip = "(''dest_ip'', ''1.1'', ''1d'')"
    and ?b = "(''url_regex'', ''b'', ''3h'')" and ?c = "(''url_regex'', ''b'', ''9h'')"
  have rules: "policy_rules plain_lib ''rules'' (ex_policy ?rs) = Some ?rs"
    "policy_rules plain_lib ''rules'' (ex_policy ?bs) = Some ?bs"
    "policy_rules plain_lib ''rules'' (ex_policy ?cs) = Some ?cs" by code_simp+
  have cache: "[?a, ?ip] = cache_rules plain_lib ?rs" "[?b] = cache_rules plain_lib ?bs"
    "[?c] = cache_rules plain_lib ?cs" by code_simp+
  have ok: "writable [?a, ?ip]" "writable [?b]" "writable [?c]" "distinct (map rule_key [?a, ?ip])"
    "distinct (map rule_key [?b])" "distinct (map rule_key [?c])" "complete_rules plain_lib ?rs"
    "distinct (map fst [?a, ?ip])" by code_simp+
  have keys: "rule_keys [?a, ?ip] = {''url_regex=a'', ''dest_ip=1.1''}" "rule_keys [?b] = {''url_regex=b''}"
    "rule_keys [?c] = {''url_regex=b''}"
    "rule_key ?a = ''url_regex=a''" "rule_key ?ip = ''dest_ip=1.1''" "rule_key ?b = ''url_regex=b''" "rule_key ?c = ''url_regex=b''"
    by (simp_all add: rule_keys_def rule_key_def cache_key_def)
  have ran: "ran (rule_table [?b, ?a, ?ip]) \<union> set [?c] = set [?b, ?a, ?ip, ?c]"
    "ran (rule_table [?c, ?a, ?ip]) = set [?c, ?a, ?ip]"
    by (subst ran_rule_table; simp add: keys; auto)+
  have apart: "unmixed [''# x''] (ran (rule_table [?b, ?a, ?ip]) \<union> set [?c]) (rule_keys [?c])"
    "unmixed [''# x''] (ran (rule_table [?c, ?a, ?ip])) (rule_keys [?a, ?ip])"
    unfolding ran by code_simp+
  have "policy_step plain_lib [''# x''] (rule_table []) (AddEvent (ex_policy ?rs)) (rule_table [] ++ rule_table [?a, ?ip])"
    by (rule policy_added [OF rules(1) cache(1) ok(1,4)]) (simp add: rule_table_simps)
  moreover have "rule_table [] ++ rule_table [?a, ?ip] = rule_table [?a, ?ip]" by (simp add: rule_table_simps)
  moreover have "policy_step plain_lib [''# x''] (rule_table [?a, ?ip]) (AddEvent (ex_policy ?bs)) (rule_table [?a, ?ip] ++ rule_table [?b])"
    by (rule policy_added [OF rules(2) cache(2) ok(2,5)]) (simp add: dom_rule_table keys)
  moreover have "rule_table [?a, ?ip] ++ rule_table [?b] = rule_table [?b, ?a, ?ip]"
    by (simp add: rule_table_append [symmetric])
  moreover have "policy_step plain_lib [''# x''] (rule_table [?b, ?a, ?ip]) (UpdateEvent (ex_policy ?bs) (ex_policy ?cs))
      (rule_table [?b, ?a, ?ip] |` (- rule_keys [?b]) ++ rule_table [?c])"
    by (rule policy_updated [OF rules(2,3) cache(2,3) ok(3,6) _ _ apart(1)]) (simp_all add: dom_rule_table keys rule_keys_def)
  moreover have "rule_table [?b, ?a, ?ip] |` (- rule_keys [?b]) ++ rule_table [?c] = rule_table [?c, ?a, ?ip]"
    by (auto simp: rule_table_simps keys fun_eq_iff restrict_map_def)
  moreover have "policy_step plain_lib [''# x''] (rule_table [?c, ?a, ?ip]) (DeleteEvent (ex_policy ?rs))
      (rule_table [?c, ?a, ?ip] |` (- rule_keys [?a, ?ip]))"
    by (rule policy_deleted [OF rules(1) cache(1) ok(7,8) apart(2)])
  moreover have "rule_table [?c, ?a, ?ip] |` (- rule_keys [?a, ?ip]) = rule_table [?c]"
    by (auto simp: rule_table_simps keys fun_eq_iff restrict_map_def)
  ultimately show ?thesis unfolding ex_cache_events_def by (simp only: policy_run_simps) blast
qed

theorem AtsCacheHandler_run_file_witness:
  "\<exists>m' s'. deliver_all (AtsCacheHandler rev plain_lib mem_files mem_env ''c'') ex_cache_events
      (Some ex_manager, ex_disk [''# x'']) = Ok (Some m', s')
    \<and> mem_content s' ''c'' = Some (text_of [''# x'', ''url_regex=b ttl-in-cache=9h''])"
proof -
  let ?c = "(''url_regex'', ''b'', ''9h'')"
  have o: "range_order (rev :: map_order)" by simp
  have b: "rules_ok []" "list_all one_line [''# x'']" by code_simp+
  have c: "mem_content (ex_disk [''# x'']) ''c'' = Some (config_file [''# x''] [])" by (simp add: config_file_def)
  obtain m' s' rs' where r: "deliver_all (AtsCacheHandler rev plain_lib mem_files mem_env ''c'') ex_cache_events
      (Some ex_manager, ex_disk [''# x'']) = Ok (Some m', s')" "rules_ok rs'" "rule_table rs' = rule_table [?c]"
    "mem_content s' = (mem_content (ex_disk [''# x'']))(''c'' \<mapsto> config_file [''# x''] rs')"
    using AtsCacheHandler_run_file [OF mem_ats.ats_files_axioms, OF o ex_cache_run b ex_disk_facts(1) c, of ex_manager]
    by blast
  have d: "distinct (map rule_key rs')" using r(2) by (simp add: rules_ok_def)
  have "set rs' = ran (rule_table [?c])" using ran_rule_table [OF d] r(3) by simp
  also have "\<dots> = {?c}" by (subst ran_rule_table) simp_all
  finally have "rs' = [?c]" using d by (intro distinct_one) (simp add: distinct_map)
  moreover have "config_file [''# x''] [?c] = text_of [''# x'', ''url_regex=b ttl-in-cache=9h'']" by code_simp
  ultimately show ?thesis using r(1,4) by simp
qed

end
