(* ===== verification/Sni_Runs.thy ===== *)
theory Sni_Runs
  imports Sni_Properties
begin

text \<open>
  Whole runs of the SNI policy handler. The abstract state is a map from host names to settings,
  which additions and updates override and deletions restrict (\<open>sni_spec\<close>); \<open>sni.yaml\<close>, read back by
  the library, is that map after every event. \<open>sni_documented\<close> is the effect the policies are documented
  to have, in which an update also takes out the dropped hosts.
\<close>

section \<open>Reading back what was written\<close>

text \<open>
  A value may change its Go type when it is written and read again; \<open>canon\<close> says what comes back.
  \<open>good\<close> are the entries for which the library keeps this promise.
\<close>

definition yaml_reads_back ::
    "yaml_lib \<Rightarrow> (SniEntry \<Rightarrow> SniEntry) \<Rightarrow> (SniEntry \<Rightarrow> bool) \<Rightarrow> (SniEntry \<Rightarrow> SniEntry) \<Rightarrow> bool" where
  "yaml_reads_back Y eord good canon \<longleftrightarrow>
     (\<forall>sni. list_all good sni \<longrightarrow>
        (\<exists>d. sni_bytes eord Y sni = Some d \<and> fst (Unmarshal_sni Y d) = map canon sni))
     \<and> (\<forall>e. good e \<longrightarrow> good (canon e) \<and> canon (canon e) = canon e \<and> existing_fqdn (canon e) = existing_fqdn e)"

lemma reads_backD:
  assumes "yaml_reads_back Y eord good canon"
  shows "list_all good sni \<Longrightarrow> \<exists>d. sni_bytes eord Y sni = Some d \<and> fst (Unmarshal_sni Y d) = map canon sni"
    and "good e \<Longrightarrow> good (canon e)" "good e \<Longrightarrow> canon (canon e) = canon e"
    and "good e \<Longrightarrow> existing_fqdn (canon e) = existing_fqdn e"
  using assms unfolding yaml_reads_back_def by blast+

section \<open>The map of hosts\<close>

text \<open>The entries of a policy, and the effect of an event on the list of entries.\<close>

definition policy_entries :: "unstructured_lib \<Rightarrow> k8s_obj \<Rightarrow> (string \<times> SniEntry) list option" where
  "policy_entries lib ob = map_option (List.map_filter sni_entry) (policy_rules lib ''sni'' ob)"

fun event_policy :: "k8s_obj event \<Rightarrow> k8s_obj" where
  "event_policy (AddEvent ob) = ob"
| "event_policy (UpdateEvent ob newOb) = newOb"
| "event_policy (DeleteEvent ob) = ob"

fun sni_change :: "sni_order \<Rightarrow> k8s_obj event \<Rightarrow> (string \<times> SniEntry) list \<Rightarrow> SniEntry list \<Rightarrow> SniEntry list" where
  "sni_change ord (AddEvent ob) es sni = sni_add es sni"
| "sni_change ord (UpdateEvent ob newOb) es sni = sni_update ord (entry_map es) sni"
| "sni_change ord (DeleteEvent ob) es sni = sni_delete (map fst es) sni"

text \<open>The specification: what an event does to the map of hosts.\<close>

definition sni_spec :: "unstructured_lib \<Rightarrow> (SniEntry \<Rightarrow> SniEntry) \<Rightarrow> k8s_obj event
    \<Rightarrow> (string \<Rightarrow> SniEntry option) \<Rightarrow> string \<Rightarrow> SniEntry option" where
  "sni_spec lib canon ev T =
     (case policy_entries lib (event_policy ev) of
        None \<Rightarrow> T
      | Some es \<Rightarrow>
          (case ev of
             DeleteEvent ob \<Rightarrow> T |` (- fst ` set es)
           | _ \<Rightarrow> T ++ map_of (rev (map (\<lambda>(f, e). (f, canon e)) es))))"

text \<open>
  The documented effect: a new version of a policy takes the place of the old one, its hosts included.
  It agrees with \<open>sni_spec\<close> as long as no update drops a host.
\<close>

definition policy_map :: "unstructured_lib \<Rightarrow> (SniEntry \<Rightarrow> SniEntry) \<Rightarrow> k8s_obj \<Rightarrow> string \<Rightarrow> SniEntry option" where
  "policy_map lib canon ob = (case policy_entries lib ob of
     None \<Rightarrow> Map.empty
   | Some es \<Rightarrow> map_of (rev (map (\<lambda>(f, e). (f, canon e)) es)))"

definition policy_hosts :: "unstructured_lib \<Rightarrow> k8s_obj \<Rightarrow> string set" where
  "policy_hosts lib ob = (case policy_entries lib ob of None \<Rightarrow> {} | Some es \<Rightarrow> fst ` set es)"

fun sni_documented :: "unstructured_lib \<Rightarrow> (SniEntry \<Rightarrow> SniEntry) \<Rightarrow> k8s_obj event
    \<Rightarrow> (string \<Rightarrow> SniEntry option) \<Rightarrow> string \<Rightarrow> SniEntry option" where
  "sni_documented lib canon (AddEvent ob) T = T ++ policy_map lib canon ob"
| "sni_documented lib canon (UpdateEvent ob newOb) T =
     T |` (- policy_hosts lib ob) ++ policy_map lib canon newOb"
| "sni_documented lib canon (DeleteEvent ob) T = T |` (- policy_hosts lib ob)"

fun drops_no_host :: "unstructured_lib \<Rightarrow> k8s_obj event \<Rightarrow> bool" where
  "drops_no_host lib (UpdateEvent ob newOb) \<longleftrightarrow> policy_hosts lib ob \<subseteq> policy_hosts lib newOb"
| "drops_no_host lib _ \<longleftrightarrow> True"

lemma policy_map_dom: "dom (policy_map lib canon ob) = policy_hosts lib ob"
  by (auto simp: policy_map_def policy_hosts_def dom_map_of_conv_image_fst image_image case_prod_beta
      split: option.split)

lemma map_add_restrict_dom: "A \<subseteq> dom M \<Longrightarrow> T |` (- A) ++ M = T ++ M"
  by (auto simp: map_add_def restrict_map_def fun_eq_iff domIff split: option.split)

lemma sni_spec_documented:
  assumes "drops_no_host lib ev"
  shows "sni_spec lib canon ev = sni_documented lib canon ev"
proof (cases ev)
  case (AddEvent ob)
  then show ?thesis by (auto simp: sni_spec_def policy_map_def fun_eq_iff split: option.split)
next
  case (UpdateEvent ob newOb)
  with assms have "sni_documented lib canon ev T = T ++ policy_map lib canon newOb" for T
    by (simp add: map_add_restrict_dom policy_map_dom)
  with UpdateEvent show ?thesis by (auto simp: sni_spec_def policy_map_def fun_eq_iff split: option.split)
next
  case (DeleteEvent ob)
  then show ?thesis by (auto simp: sni_spec_def policy_hosts_def fun_eq_iff split: option.split)
qed

lemma fold_sni_documented:
  "list_all (drops_no_host lib) evs \<Longrightarrow> fold (sni_spec lib canon) evs T = fold (sni_documented lib canon) evs T"
  by (induction evs arbitrary: T) (simp_all add: sni_spec_documented)

definition host_map :: "(SniEntry \<Rightarrow> SniEntry) \<Rightarrow> SniEntry list \<Rightarrow> string \<Rightarrow> SniEntry option" where
  "host_map canon sni = (\<lambda>f. map_option canon (sni_get sni f))"

lemma policy_entries_own: "policy_entries lib ob = Some es \<Longrightarrow> own_entries es"
  by (auto simp: policy_entries_def sni_entry_own)

lemma map_of_canon: "map_of (rev (map (\<lambda>(f, e). (f, canon e)) es)) f = map_option canon (map_of (rev es) f)"
  by (simp add: rev_map map_of_map)

lemma sni_change_spec:
  assumes "policy_entries lib (event_policy ev) = Some es" "range_order ord"
  shows "host_map canon (sni_change ord ev es sni) = sni_spec lib canon ev (host_map canon sni)"
proof -
  note own = policy_entries_own [OF assms(1)]
  show ?thesis
    using assms(1)
    by (cases ev) (auto simp: sni_spec_def host_map_def fun_eq_iff map_add_def restrict_map_def map_of_canon
        sni_add_get [OF own] sni_update_get [OF own assms(2)] sni_delete_get split: option.split)
qed

lemma host_map_canon:
  assumes "\<And>e. e \<in> set sni \<Longrightarrow> canon (canon e) = canon e \<and> existing_fqdn (canon e) = existing_fqdn e"
  shows "host_map canon (map canon sni) = host_map canon sni"
proof -
  have "sni_get (map canon sni) f = map_option canon (sni_get sni f)" for f
    using assms by (induction sni) auto
  moreover have "canon (canon e) = canon e" if "sni_get sni f = Some e" for f e
    using that assms by (induction sni) (auto split: if_splits)
  ultimately show ?thesis by (auto simp: host_map_def fun_eq_iff map_option_case split: option.split)
qed

section \<open>Entries stay good and hosts apart\<close>

definition sni_typed :: "(SniEntry \<Rightarrow> bool) \<Rightarrow> SniEntry list \<Rightarrow> bool" where
  "sni_typed good sni \<longleftrightarrow> list_all good sni \<and> distinct (map existing_fqdn sni)"

lemma set_entry_set: "set (set_entry f e sni) \<subseteq> insert e (set sni)"
  by (induction sni) (auto simp: deep_equal_entry_def)

lemma sni_add_set: "set (sni_add es sni) \<subseteq> snd ` set es \<union> set sni"
proof -
  have "set (fold (\<lambda>(f, e). set_entry f e) es sni) \<subseteq> snd ` set es \<union> set sni"
  proof (induction es arbitrary: sni)
    case (Cons fe es)
    obtain f e where "fe = (f, e)" by (cases fe)
    with Cons.IH [of "set_entry f e sni"] set_entry_set [of f e sni] show ?case by auto
  qed simp
  then show ?thesis by (simp add: sni_add_def)
qed

lemma entry_map_snd: "gm_get (entry_map es) f = Some e \<Longrightarrow> e \<in> snd ` set es"
  by (force simp: entry_map_get dest: map_of_SomeD)

lemma range_order_entry:
  assumes "range_order ord" "(f, e) \<in> set (ord (entry_map es))"
  shows "gm_get (entry_map es) f = Some e"
  using assms range_order_set [OF assms(1)] entry_map_wf [of es] by (simp add: gm_wf_def)

lemma sni_update_set:
  assumes "range_order ord"
  shows "set (sni_update ord (entry_map es) sni) \<subseteq> snd ` set es \<union> set sni"
proof -
  have "snd fe \<in> snd ` set es" if "fe \<in> set (ord (entry_map es))" for fe
    using entry_map_snd [OF range_order_entry [OF assms, of "fst fe" "snd fe" es]] that by simp
  then show ?thesis by (auto simp: sni_update_def Let_def entry_map_snd split: option.splits)
qed

lemma sni_update_distinct:
  assumes "own_entries es" "range_order ord" "distinct (map existing_fqdn sni)"
  shows "distinct (map existing_fqdn (sni_update ord (entry_map es) sni))"
proof -
  let ?M = "entry_map es"
  let ?kept = "map (\<lambda>e. case gm_get ?M (existing_fqdn e) of Some e' \<Rightarrow> e' | None \<Rightarrow> e) sni"
  let ?rest = "filter (\<lambda>(f, e). f \<notin> set (filter (gm_has ?M) (map existing_fqdn sni))) (ord ?M)"
  have entry: "existing_fqdn (snd fe) = fst fe" "gm_has ?M (fst fe)" if "fe \<in> set (ord ?M)" for fe
    using range_order_entry [OF assms(2), of "fst fe" "snd fe"] that entry_map_own [OF assms(1)]
    by (simp_all add: gm_has_def)
  have kept: "map existing_fqdn ?kept = map existing_fqdn sni"
    by (induction sni) (auto simp: entry_map_own [OF assms(1)] split: option.split)
  have rest: "map existing_fqdn (map snd ?rest) = map fst ?rest"
    by (auto simp: entry(1))
  have "distinct (map fst (ord ?M))"
    using range_order_distinct_keys [OF assms(2) entry_map_wf] by (simp only: gm_wf_def)
  then have "distinct (map fst ?rest)" by (rule distinct_map_filter)
  moreover have "set (map existing_fqdn sni) \<inter> set (map fst ?rest) = {}"
    by (auto dest: entry(2))
  ultimately show ?thesis
    using assms(3) unfolding sni_update_def Let_def map_append kept rest distinct_append by blast
qed

lemma sni_change_typed:
  assumes "own_entries es" "range_order ord" "list_all (good \<circ> snd) es" "sni_typed good sni"
  shows "sni_typed good (sni_change ord ev es sni)"
proof (cases ev)
  case (AddEvent ob)
  with assms sni_add_set [of es sni] sni_add_distinct [OF assms(1), of sni] show ?thesis
    by (force simp: sni_typed_def list_all_iff)
next
  case (UpdateEvent ob newOb)
  with assms sni_update_set [OF assms(2), of es sni] sni_update_distinct [OF assms(1,2), of sni] show ?thesis
    by (force simp: sni_typed_def list_all_iff)
next
  case (DeleteEvent ob)
  with assms(4) show ?thesis by (auto simp: sni_typed_def list_all_iff sni_delete_def distinct_map_filter)
qed

section \<open>Each event is what the handler does to the file\<close>

definition entries_good :: "unstructured_lib \<Rightarrow> (SniEntry \<Rightarrow> bool) \<Rightarrow> k8s_obj event \<Rightarrow> bool" where
  "entries_good lib good ev \<longleftrightarrow> policy_valid (event_policy ev)
     \<and> (case policy_entries lib (event_policy ev) of None \<Rightarrow> True | Some es \<Rightarrow> list_all (good \<circ> snd) es)"

definition sni_frame :: "('s \<Rightarrow> string \<Rightarrow> string option) \<Rightarrow> string \<Rightarrow> 's \<Rightarrow> 's \<Rightarrow> bool" where
  "sni_frame content path s s' \<longleftrightarrow>
     (\<forall>q. q \<noteq> path \<longrightarrow> q \<noteq> sni_tmp path \<longrightarrow> content s' q = content s q)"

lemma sni_frame_trans: "sni_frame content p s s1 \<Longrightarrow> sni_frame content p s1 s2 \<Longrightarrow> sni_frame content p s s2"
  by (simp add: sni_frame_def)

context ats_files
begin

lemma sni_deliver_cycle:
  assumes "policy_entries lib (event_policy ev) = Some es" "healthy s"
    and "sni_bytes eord Y (sni_change ord ev es (sni_file Y (content s path))) = Some data"
  shows "\<exists>m' s'. deliver (AtsSniHandler ord eord Y lib F env path) ev (Some m, s) = Ok (Some m', s') \<and> healthy s'
    \<and> content s' path = Some data \<and> sni_frame content path s s'"
proof -
  obtain u xs where u: "as_unstructured (event_policy ev) = Some u"
    "NestedSlice lib (Object u) [''spec'', ''sni''] = Found xs" "es = List.map_filter sni_entry xs"
    using assms(1) by (auto simp: policy_entries_def policy_rules_Some)
  have "deliver (AtsSniHandler ord eord Y lib F env path) ev (Some m, s) =
      (case loadSniFile Y F path s of (sni, s') \<Rightarrow>
        reloadSni env (Some m, writeSniFile eord Y F path (sni_change ord ev es sni) s'))"
    using u by (cases ev) (simp_all add: AtsSniHandler_def AtsSniHandler_Add_def AtsSniHandler_Update_def
        AtsSniHandler_Delete_def)
  with sni_cycle [where g = "sni_change ord ev es" and eord = eord and Y = Y and path = path, OF assms(2) refl, of m] assms(3) show ?thesis unfolding sni_frame_def sni_written_def by simp
qed

lemma sni_deliver_nothing:
  assumes "policy_entries lib (event_policy ev) = None" "policy_valid (event_policy ev)" "healthy s"
  shows "\<exists>s'. deliver (AtsSniHandler ord eord Y lib F env path) ev (Some m, s) = Ok (Some m, s') \<and> healthy s'
    \<and> content s' = content s"
proof -
  obtain s1 where "loadSniFile Y F path s = (sni_file Y (content s path), s1)" "healthy s1" "content s1 = content s"
    using loadSniFile_ok [OF assms(3)] by blast
  with assms show ?thesis
    by (cases ev) (auto simp: policy_entries_def policy_valid_def policy_rules_def AtsSniHandler_def
        AtsSniHandler_Add_def AtsSniHandler_Update_def AtsSniHandler_Delete_def split: nested.splits)
qed

lemma sni_event_delivered:
  assumes "yaml_reads_back Y eord good canon" "range_order ord" "entries_good lib good ev"
    and "healthy s" "sni_typed good (sni_file Y (content s path))"
  shows "\<exists>m' s'. deliver (AtsSniHandler ord eord Y lib F env path) ev (Some m, s) = Ok (Some m', s') \<and> healthy s'
    \<and> sni_typed good (sni_file Y (content s' path))
    \<and> host_map canon (sni_file Y (content s' path)) =
        sni_spec lib canon ev (host_map canon (sni_file Y (content s path)))
    \<and> sni_frame content path s s'"
proof (cases "policy_entries lib (event_policy ev)")
  case None
  have v: "policy_valid (event_policy ev)" using assms(3) by (simp add: entries_good_def)
  obtain s' where "deliver (AtsSniHandler ord eord Y lib F env path) ev (Some m, s) = Ok (Some m, s')"
    "healthy s'" "content s' = content s"
    using sni_deliver_nothing [OF None v assms(4)] by blast
  with assms(5) None show ?thesis by (auto simp: sni_spec_def sni_frame_def)
next
  case (Some es)
  let ?sni = "sni_change ord ev es (sni_file Y (content s path))"
  have "sni_typed good ?sni"
    by (rule sni_change_typed [OF policy_entries_own [OF Some] assms(2) _ assms(5)])
      (use assms(3) Some in \<open>simp add: entries_good_def\<close>)
  then have good: "list_all good ?sni" "distinct (map existing_fqdn ?sni)" by (simp_all add: sni_typed_def)
  obtain data where data: "sni_bytes eord Y ?sni = Some data" "fst (Unmarshal_sni Y data) = map canon ?sni"
    using reads_backD(1) [OF assms(1) good(1)] by blast
  obtain m' s' where s': "deliver (AtsSniHandler ord eord Y lib F env path) ev (Some m, s) = Ok (Some m', s')"
    "healthy s'" "content s' path = Some data" "sni_frame content path s s'"
    using sni_deliver_cycle [OF Some assms(4) data(1)] by blast
  have reread: "sni_file Y (content s' path) = map canon ?sni" by (simp add: sni_file_def s'(3) data(2))
  have e: "good e" if "e \<in> set ?sni" for e using good(1) that by (simp add: list_all_iff)
  have hosts: "map existing_fqdn (map canon ?sni) = map existing_fqdn ?sni"
    using reads_backD(4) [OF assms(1) e] by simp
  have "sni_typed good (map canon ?sni)"
    unfolding sni_typed_def hosts using good(2) reads_backD(2) [OF assms(1) e] by (simp add: list_all_iff)
  moreover have "host_map canon (map canon ?sni) = sni_spec lib canon ev (host_map canon (sni_file Y (content s path)))"
    unfolding sni_change_spec [OF Some assms(2), symmetric]
    by (rule host_map_canon) (use reads_backD(3,4) [OF assms(1) e] in blast)
  ultimately show ?thesis using s'(1,2,4) unfolding reread [symmetric] by blast
qed

lemma sni_run_delivered:
  assumes "yaml_reads_back Y eord good canon" "range_order ord" "list_all (entries_good lib good) evs"
    and "healthy s" "sni_typed good (sni_file Y (content s path))"
  shows "\<exists>m' s'. deliver_all (AtsSniHandler ord eord Y lib F env path) evs (Some m, s) = Ok (Some m', s')
    \<and> healthy s' \<and> sni_typed good (sni_file Y (content s' path))
    \<and> host_map canon (sni_file Y (content s' path)) =
        fold (sni_spec lib canon) evs (host_map canon (sni_file Y (content s path)))
    \<and> sni_frame content path s s'"
  using assms(3-5)
proof (induction evs arbitrary: m s)
  case Nil
  then show ?case by (auto simp: deliver_all_def skip_def sni_frame_def)
next
  case (Cons ev evs)
  have ev: "entries_good lib good ev" "list_all (entries_good lib good) evs" using Cons.prems(1) by simp_all
  obtain m1 s1 where 1: "deliver (AtsSniHandler ord eord Y lib F env path) ev (Some m, s) = Ok (Some m1, s1)"
    "healthy s1" "sni_typed good (sni_file Y (content s1 path))"
    "host_map canon (sni_file Y (content s1 path)) = sni_spec lib canon ev (host_map canon (sni_file Y (content s path)))"
    "sni_frame content path s s1"
    using sni_event_delivered [OF assms(1,2) ev(1) Cons.prems(2,3), of m] by blast
  obtain m' s' where 2: "deliver_all (AtsSniHandler ord eord Y lib F env path) evs (Some m1, s1) = Ok (Some m', s')"
    "healthy s'" "sni_typed good (sni_file Y (content s' path))"
    "host_map canon (sni_file Y (content s' path)) = fold (sni_spec lib canon) evs (host_map canon (sni_file Y (content s1 path)))"
    "sni_frame content path s1 s'"
    using Cons.IH [OF ev(2) 1(2,3), of m1] by blast
  have "deliver_all (AtsSniHandler ord eord Y lib F env path) (ev # evs) (Some m, s) = Ok (Some m', s')"
    using 1(1) 2(1) by (simp add: deliver_all_def seq_def)
  with 2(2-4) sni_frame_trans [OF 1(5) 2(5)] show ?case unfolding fold_simps 1(4) [symmetric] by blast
qed

end

section \<open>The library of the examples reads back what it writes\<close>

definition plain_entry :: "SniEntry \<Rightarrow> bool" where
  "plain_entry e \<longleftrightarrow> e = ex_sni (existing_fqdn e) \<and> newline \<notin> set (existing_fqdn e)"

lemma plain_node: "concat (map NodeValue (Content (MarshalYAML eord plain_yaml (ex_sni host)))) = ''fqdn'' @ host"
  if "range_order eord"
  using range_order_set [OF that, of "ex_sni host"]
  by (simp add: MarshalYAML_def ex_sni_def entry_nodes_def nodeFromInterface_def plain_yaml_def str_node_def
      other_keys_def filter_empty_conv)

lemma plain_marshal:
  "Marshal_sni plain_yaml nodes = Inr (text_of (''sni:'' # map (\<lambda>n. concat (map NodeValue (Content n))) nodes))"
  by (simp add: plain_yaml_def)

lemma plain_reads_back: "yaml_reads_back plain_yaml (\<lambda>e. e) plain_entry (\<lambda>e. e)"
proof -
  let ?line = "\<lambda>e. ''fqdn'' @ existing_fqdn e"
  have "\<exists>d. sni_bytes (\<lambda>e. e) plain_yaml sni = Some d \<and> fst (Unmarshal_sni plain_yaml d) = sni"
    if "list_all plain_entry sni" for sni
  proof (cases "sni = []")
    case True
    then show ?thesis by (simp add: sni_bytes_def plain_yaml_def)
  next
    case False
    have e: "concat (map NodeValue (Content (MarshalYAML (\<lambda>e. e) plain_yaml e))) = ?line e \<and> one_line (?line e)
        \<and> [(''fqdn'', JString (drop 4 (?line e)))] = e" if "e \<in> set sni" for e
    proof -
      define host where "host = existing_fqdn e"
      have "e = ex_sni host" "newline \<notin> set host"
        using \<open>list_all plain_entry sni\<close> \<open>e \<in> set sni\<close> by (simp_all add: list_all_iff plain_entry_def host_def)
      with plain_node [of "\<lambda>e. e" host] show ?thesis
        unfolding host_def [symmetric] by (simp add: ex_sni_def one_line_def newline_def)
    qed
    let ?lines = "''sni:'' # map ?line sni"
    have "map (\<lambda>n. concat (map NodeValue (Content n))) (map (MarshalYAML (\<lambda>e. e) plain_yaml) sni) = map ?line sni"
      using e by simp
    with False have "sni_bytes (\<lambda>e. e) plain_yaml sni = Some (text_of ?lines)"
      by (simp add: sni_bytes_def plain_marshal del: map_map)
    moreover have "list_all one_line ?lines" using e by (simp add: list_all_iff one_line_def newline_def)
    then have "split_on newline (text_of ?lines) = ?lines @ [[]]" by (rule split_text_of)
    then have "fst (Unmarshal_sni plain_yaml (text_of ?lines)) = map (\<lambda>e. [(''fqdn'', JString (drop 4 (?line e)))]) sni"
      by (simp add: plain_yaml_def butlast_append)
    then have "fst (Unmarshal_sni plain_yaml (text_of ?lines)) = sni" using e by (simp add: map_idI)
    ultimately show ?thesis by blast
  qed
  then show ?thesis by (simp add: yaml_reads_back_def)
qed

section \<open>Properties\<close>

text \<open>
  C6. On a healthy disk, after any events on objects of the dynamic informer, in any order, the SNI
  handler has not panicked and \<open>sni.yaml\<close>, read back by the library, is the map that the events make of
  the one it started with: an addition overrides the hosts of its policy with the policy's last entry for
  each, a new version of a policy takes the place of the old one, a deletion removes the hosts of its
  policy. No other file but the temporary one has changed, and the order in which Go ranges over its maps
  does not matter. A file that does not exist counts as the empty map. Assumed: the library prints the
  entries and reads them back, and no update drops a host from a policy; the code does not remove dropped hosts.
\<close>

theorem AtsSniHandler_run_map:
  assumes "ats_files F content healthy env" "yaml_reads_back Y eord good canon" "range_order ord"
    and "list_all (entries_good lib good) evs" "list_all (drops_no_host lib) evs"
    and "healthy s" "sni_typed good (sni_file Y (content s path))"
  shows "\<exists>m' s'. deliver_all (AtsSniHandler ord eord Y lib F env path) evs (Some m, s) = Ok (Some m', s')
    \<and> host_map canon (sni_file Y (content s' path)) =
        fold (sni_documented lib canon) evs (host_map canon (sni_file Y (content s path)))
    \<and> (\<forall>q. q \<noteq> path \<longrightarrow> q \<noteq> sni_tmp path \<longrightarrow> content s' q = content s q)"
  unfolding fold_sni_documented [OF assms(5), symmetric] sni_frame_def [symmetric]
  using ats_files.sni_run_delivered [OF assms(1), OF assms(2-4,6,7), of m] by blast

definition ex_sni_events :: "k8s_obj event list" where
  "ex_sni_events = [AddEvent (ex_sni_policy [ex_sni ''b.com'', ex_sni ''c.com'']),
     UpdateEvent (ex_sni_policy [ex_sni ''b.com'', ex_sni ''c.com''])
       (ex_sni_policy [ex_sni ''b.com'', ex_sni ''c.com'', ex_sni ''d.com'']),
     AddEvent (ex_sni_policy [ex_sni ''e.com'']), DeleteEvent (ex_sni_policy [ex_sni ''e.com''])]"

lemma ex_sni_run: "list_all (entries_good plain_lib plain_entry) ex_sni_events"
  by code_simp

lemma ex_sni_start:
  "sni_file plain_yaml (mem_content mem_disk_empty ''c'') = []" "sni_typed plain_entry []" "mem_healthy mem_disk_empty"
  by code_simp+

theorem AtsSniHandler_run_map_witness:
  "\<exists>m' s'. deliver_all (AtsSniHandler rev (\<lambda>e. e) plain_yaml plain_lib mem_files mem_env ''c'') ex_sni_events
      (Some ex_manager, mem_disk_empty) = Ok (Some m', s')
    \<and> map (host_map (\<lambda>e. e) (sni_file plain_yaml (mem_content s' ''c''))) [''b.com'', ''d.com'', ''e.com'']
        = [Some (ex_sni ''b.com''), Some (ex_sni ''d.com''), None]"
proof -
  have o: "range_order (rev :: sni_order)" by simp
  have t: "sni_typed plain_entry (sni_file plain_yaml (mem_content mem_disk_empty ''c''))"
    unfolding ex_sni_start(1) by (rule ex_sni_start(2))
  have e: "policy_entries plain_lib (ex_sni_policy [ex_sni ''b.com'', ex_sni ''c.com''])
      = Some [(''b.com'', ex_sni ''b.com''), (''c.com'', ex_sni ''c.com'')]"
    "policy_entries plain_lib (ex_sni_policy [ex_sni ''b.com'', ex_sni ''c.com'', ex_sni ''d.com''])
      = Some [(''b.com'', ex_sni ''b.com''), (''c.com'', ex_sni ''c.com''), (''d.com'', ex_sni ''d.com'')]"
    "policy_entries plain_lib (ex_sni_policy [ex_sni ''e.com'']) = Some [(''e.com'', ex_sni ''e.com'')]" by code_simp+
  have h: "list_all (drops_no_host plain_lib) ex_sni_events"
    by (auto simp: ex_sni_events_def policy_hosts_def e)
  have f: "map (fold (sni_documented plain_lib (\<lambda>e. e)) ex_sni_events (host_map (\<lambda>e. e) [])) [''b.com'', ''d.com'', ''e.com'']
      = [Some (ex_sni ''b.com''), Some (ex_sni ''d.com''), None]"
    by (simp add: ex_sni_events_def policy_map_def policy_hosts_def e host_map_def)
  obtain m' s' where "deliver_all (AtsSniHandler rev (\<lambda>e. e) plain_yaml plain_lib mem_files mem_env ''c'') ex_sni_events
      (Some ex_manager, mem_disk_empty) = Ok (Some m', s')"
    "host_map (\<lambda>e. e) (sni_file plain_yaml (mem_content s' ''c'')) =
      fold (sni_documented plain_lib (\<lambda>e. e)) ex_sni_events (host_map (\<lambda>e. e) (sni_file plain_yaml (mem_content mem_disk_empty ''c'')))"
    using AtsSniHandler_run_map [OF mem_ats.ats_files_axioms, OF plain_reads_back o ex_sni_run h ex_sni_start(3) t,
        of ex_manager] by blast
  then show ?thesis unfolding ex_sni_start(1) using f by (metis (no_types, lifting))
qed

text \<open>
  C27. The form of \<open>sni.yaml\<close> is kept: if at the start no two entries are for the same host and each
  is one the library can write and read back, this holds after any events, so that the proxy never
  finds two settings for one host.
\<close>

theorem AtsSniHandler_run_typed:
  assumes "ats_files F content healthy env" "yaml_reads_back Y eord good canon" "range_order ord"
    and "list_all (entries_good lib good) evs" "healthy s" "sni_typed good (sni_file Y (content s path))"
  shows "\<exists>m' s'. deliver_all (AtsSniHandler ord eord Y lib F env path) evs (Some m, s) = Ok (Some m', s')
    \<and> sni_typed good (sni_file Y (content s' path))"
  using ats_files.sni_run_delivered [OF assms(1), OF assms(2-6), of m] by blast

theorem AtsSniHandler_run_typed_witness:
  "\<exists>m' s'. deliver_all (AtsSniHandler rev (\<lambda>e. e) plain_yaml plain_lib mem_files mem_env ''c'')
      ex_sni_events (Some ex_manager, mem_disk_empty) = Ok (Some m', s')
    \<and> sni_typed plain_entry (sni_file plain_yaml (mem_content s' ''c''))"
proof -
  have o: "range_order (rev :: sni_order)" by simp
  have t: "sni_typed plain_entry (sni_file plain_yaml (mem_content mem_disk_empty ''c''))"
    unfolding ex_sni_start(1) by (rule ex_sni_start(2))
  show ?thesis
    by (rule AtsSniHandler_run_typed [OF mem_ats.ats_files_axioms plain_reads_back o ex_sni_run ex_sni_start(3) t])
qed

end
