(* ===== verification/Policies.thy ===== *)
theory Policies
  imports Controller Cache_Runs Sni_Runs
begin

text \<open>
  The two policy files under the whole controller. The ConfigMap handler and the two policy handlers
  share the manager and its world; on a healthy disk each file depends on the events of its own
  handler alone, however the events of all informers are mixed.
\<close>

section \<open>Commands that leave the files alone\<close>

text \<open>\<open>traffic_ctl config set\<close> changes the running proxy, not the files of the policy handlers.\<close>

locale ats_commands = ats_files F content healthy env
  for F :: "'s file_api" and content :: "'s \<Rightarrow> string \<Rightarrow> string option" and healthy :: "'s \<Rightarrow> bool"
    and env :: "'s ats_env" +
  assumes set_content: "content (snd (run_cmd env [''traffic_ctl'', ''config'', ''set'', k, v] s)) = content s"
    and set_healthy: "healthy s \<Longrightarrow> healthy (snd (run_cmd env [''traffic_ctl'', ''config'', ''set'', k, v] s))"
begin

lemma config_entry_files:
  assumes "healthy x"
  shows "\<exists>m' x'. config_entry env k v (Some m, x) = Ok (Some m', x') \<and> healthy x' \<and> content x' = content x"
  using set_content [of k v x] set_healthy [OF assms, of k v] assms
  by (cases m) (auto simp: config_entry_def ATSManager_ConfigSet_def FakeATSManager_ConfigSet_def
      split: prod.split sum.split)

lemma config_loop_files:
  assumes "healthy x"
  shows "\<exists>m' x'. for_each (\<lambda>(k, v). config_entry env k v) kvs (Some m, x) = Ok (Some m', x')
    \<and> healthy x' \<and> content x' = content x"
  using assms
proof (induction kvs arbitrary: m x)
  case (Cons kv kvs)
  obtain k v where kv: "kv = (k, v)" by (cases kv)
  obtain m1 x1 where 1: "config_entry env k v (Some m, x) = Ok (Some m1, x1)" "healthy x1" "content x1 = content x"
    using config_entry_files [OF Cons.prems] by blast
  from Cons.IH [OF 1(2), of m1] 1 show ?case by (simp add: kv seq_def)
qed (simp add: skip_def)

lemma CMHandler_files:
  assumes "range_order ord" "healthy x"
  shows "\<exists>m' x'. deliver (CMHandler ord env) ev (Some m, x) = Ok (Some m', x') \<and> healthy x' \<and> content x' = content x"
  using config_loop_files [OF assms(2)] assms(2)
  by (cases ev) (simp_all add: CMHandler_def CMHandler_Add_def CMHandler_Update_def CMHandler_Delete_def
      CMHandler_update_settings [OF assms(1)] skip_def)

end

interpretation mem_commands: ats_commands mem_files mem_content mem_healthy mem_env
  by unfold_locales (simp_all add: mem_env_def mem_run_def mem_content_def mem_healthy_def fun_eq_iff)

section \<open>The two files side by side\<close>

text \<open>
  What holds of the files between two events: \<open>cache.config\<close> has the rules in force, \<open>sni.yaml\<close> is the
  map of hosts.
\<close>

definition policy_files :: "yaml_lib \<Rightarrow> (SniEntry \<Rightarrow> bool) \<Rightarrow> (SniEntry \<Rightarrow> SniEntry) \<Rightarrow> string list
    \<Rightarrow> rule list \<Rightarrow> (string \<Rightarrow> SniEntry option) \<Rightarrow> (string \<Rightarrow> string option) \<Rightarrow> bool" where
  "policy_files Y good canon base rs T files \<longleftrightarrow>
     files CACHE_PATH = Some (config_file base rs) \<and> rules_ok rs
     \<and> sni_typed good (sni_file Y (files SNI_PATH)) \<and> host_map canon (sni_file Y (files SNI_PATH)) = T"

lemma paths_apart [simp]: "CACHE_PATH \<noteq> SNI_PATH" "SNI_PATH \<noteq> CACHE_PATH"
  "CACHE_PATH \<noteq> sni_tmp SNI_PATH" "sni_tmp SNI_PATH \<noteq> CACHE_PATH"
  by (simp_all add: CACHE_PATH_def SNI_PATH_def sni_tmp_def)

lemma events_of_simps:
  "events_of src [] = []"
  "events_of src ((src', ev) # evs) = (if src' = src then ev # events_of src evs else events_of src evs)"
  by (simp_all add: events_of_def)

lemma ats_run_simps:
  "ats_run P [] = skip"
  "ats_run P ((src, ev) # evs) =
     (if redis_source src then ats_run P evs else seq (deliver (ats_part P src) ev) (ats_run P evs))"
  by (simp_all add: ats_run_def)

text \<open>What a run needs: libraries and orders as documented, entries the library reads back.\<close>

definition policies_ok :: "('r, 'x) outside \<Rightarrow> (SniEntry \<Rightarrow> bool) \<Rightarrow> (SniEntry \<Rightarrow> SniEntry)
    \<Rightarrow> (source \<times> k8s_obj event) list \<Rightarrow> bool" where
  "policies_ok P good canon evs \<longleftrightarrow> range_order (Range_order P) \<and> range_order (Sni_range P)
     \<and> yaml_reads_back (Yaml_of P) (Entry_order P) good canon
     \<and> list_all (entries_good (Nested_of P) good) (events_of Sni_source evs)"

lemma policy_step_files:
  assumes "ats_commands (Files_of P) content healthy (Ats_of P)" "policies_ok P good canon []"
    and "list_all one_line base" "healthy x" "policy_files (Yaml_of P) good canon base rs T (content x)"
    and "\<not> redis_source src"
    and "if src = Caching_source then cache_step (Nested_of P) base rs ev rs1 else rs1 = rs"
    and "src = Sni_source \<Longrightarrow> entries_good (Nested_of P) good ev"
  shows "\<exists>m' x'. deliver (ats_part P src) ev (Some m, x) = Ok (Some m', x') \<and> healthy x'
    \<and> policy_files (Yaml_of P) good canon base rs1
        (if src = Sni_source then sni_spec (Nested_of P) canon ev T else T) (content x')"
proof -
  note files = ats_commands.axioms(1) [OF assms(1)]
  have ok: "range_order (Range_order P)" "range_order (Sni_range P)"
    "yaml_reads_back (Yaml_of P) (Entry_order P) good canon"
    using assms(2) by (simp_all add: policies_ok_def)
  have x: "content x CACHE_PATH = Some (config_file base rs)" "rules_ok rs"
    "sni_typed good (sni_file (Yaml_of P) (content x SNI_PATH))"
    "host_map canon (sni_file (Yaml_of P) (content x SNI_PATH)) = T"
    using assms(5) by (simp_all add: policy_files_def)
  consider "src = ConfigMaps_source" | "src = Caching_source" | "src = Sni_source"
    using assms(6) by (cases src) auto
  then show ?thesis
  proof cases
    case 1
    obtain m' x' where "deliver (CMHandler (Range_order P) (Ats_of P)) ev (Some m, x) = Ok (Some m', x')"
      "healthy x'" "content x' = content x"
      using ats_commands.CMHandler_files [OF assms(1) ok(1) assms(4), of ev m] by blast
    with 1 assms(5,7) show ?thesis by simp
  next
    case 2
    then have step: "cache_step (Nested_of P) base rs ev rs1" using assms(7) by simp
    obtain m' x' where "deliver (ats_part P src) ev (Some m, x) = Ok (Some m', x')" "healthy x'"
      "content x' = (content x)(CACHE_PATH \<mapsto> config_file base rs1)"
      using ats_files.cache_step_delivered [OF files step x(2) assms(3) ok(1) assms(4) x(1), of m] 2 by auto
    with 2 x cache_step_ok [OF step x(2)] show ?thesis by (simp add: policy_files_def)
  next
    case 3
    obtain m' x' where d: "deliver (ats_part P src) ev (Some m, x) = Ok (Some m', x')" "healthy x'"
      "sni_typed good (sni_file (Yaml_of P) (content x' SNI_PATH))"
      "host_map canon (sni_file (Yaml_of P) (content x' SNI_PATH)) =
        sni_spec (Nested_of P) canon ev (host_map canon (sni_file (Yaml_of P) (content x SNI_PATH)))"
      "sni_frame content SNI_PATH x x'"
      using ats_files.sni_event_delivered [OF files ok(3,2) assms(8) [OF 3] assms(4) x(3), of m] 3 by auto
    then have "content x' CACHE_PATH = content x CACHE_PATH" by (simp add: sni_frame_def)
    with d(1-4) 3 x assms(7) show ?thesis by (simp add: policy_files_def)
  qed
qed

lemma policy_run_files:
  assumes "ats_commands (Files_of P) content healthy (Ats_of P)" "policies_ok P good canon evs"
    and "cache_run (Nested_of P) base rs (events_of Caching_source evs) rs'" "list_all one_line base"
    and "healthy x" "policy_files (Yaml_of P) good canon base rs T (content x)"
  shows "\<exists>m' x'. ats_run P evs (Some m, x) = Ok (Some m', x') \<and> healthy x'
    \<and> policy_files (Yaml_of P) good canon base rs'
        (fold (sni_spec (Nested_of P) canon) (events_of Sni_source evs) T) (content x')"
  using assms(2,3,5,6)
proof (induction evs arbitrary: rs T m x)
  case Nil
  then show ?case by (simp add: ats_run_simps skip_def events_of_simps cache_run_simps)
next
  case (Cons se evs)
  obtain src ev where se: "se = (src, ev)" by (cases se)
  have ok: "policies_ok P good canon []" "policies_ok P good canon evs"
    "src = Sni_source \<Longrightarrow> entries_good (Nested_of P) good ev"
    using Cons.prems(1) by (auto simp: policies_ok_def se events_of_simps split: if_splits)
  show ?case
  proof (cases "redis_source src")
    case True
    then have "src \<noteq> Caching_source" "src \<noteq> Sni_source" by auto
    with True Cons.IH [OF ok(2) _ Cons.prems(3,4), of m] Cons.prems(2) show ?thesis
      by (simp add: se ats_run_simps events_of_simps)
  next
    case False
    obtain rs1 where rs1: "if src = Caching_source then cache_step (Nested_of P) base rs ev rs1 else rs1 = rs"
      "cache_run (Nested_of P) base rs1 (events_of Caching_source evs) rs'"
      using Cons.prems(2) by (auto simp: se events_of_simps cache_run_simps split: if_splits)
    obtain m1 x1 where 1: "deliver (ats_part P src) ev (Some m, x) = Ok (Some m1, x1)" "healthy x1"
      "policy_files (Yaml_of P) good canon base rs1
        (if src = Sni_source then sni_spec (Nested_of P) canon ev T else T) (content x1)"
      using policy_step_files [OF assms(1) ok(1) assms(4) Cons.prems(3,4) False rs1(1) ok(3), of m] by blast
    from Cons.IH [OF ok(2) rs1(2) 1(2,3), of m1] 1(1) False show ?thesis
      by (cases "src = Sni_source") (simp_all add: se ats_run_simps seq_def events_of_simps)
  qed
qed

section \<open>Properties\<close>

text \<open>
  C5. The policy files under all five handlers: on a healthy disk, whatever valid events the
  informers deliver and however they are mixed, no handler panics, \<open>cache.config\<close> has the lines
  written by hand and those of the rules that the caching events alone leave in force, and
  \<open>sni.yaml\<close> is the map of hosts that the SNI events alone give.
\<close>

theorem controller_run_files:
  assumes "redis_server (Redis_of P) members up" "client_open (RedisClient E)" "up s" "valid_events E evs"
    and "ats_commands (Files_of P) content healthy (Ats_of P)" "policies_ok P good canon evs"
    and "cache_run (Nested_of P) base rs (events_of Caching_source evs) rs'" "list_all one_line base"
    and "healthy x" "policy_files (Yaml_of P) good canon base rs T (content x)"
  shows "\<exists>s' m' x'. controller_run P E evs (s, (Some m, x)) = Ok (s', (Some m', x')) \<and> up s' \<and> healthy x'
    \<and> policy_files (Yaml_of P) good canon base rs'
        (fold (sni_spec (Nested_of P) canon) (events_of Sni_source evs) T) (content x')"
proof -
  obtain s' where r: "redis_run P E evs s = Ok s'" "up s'" using redis_run_result [OF assms(1-4)] by blast
  obtain m' x' where x': "ats_run P evs (Some m, x) = Ok (Some m', x')" "healthy x'"
    "policy_files (Yaml_of P) good canon base rs'
        (fold (sni_spec (Nested_of P) canon) (events_of Sni_source evs) T) (content x')"
    using policy_run_files [OF assms(5-10), of m] by blast
  from controller_run_sides [OF r(1) x'(1)] r(2) x'(2,3) show ?thesis by blast
qed

definition ex_policy_events :: "(source \<times> k8s_obj event) list" where
  "ex_policy_events = [(Caching_source, AddEvent (ex_policy [ex_rule ''url_regex'' ''b'' ''3h''])),
     (Ingresses_source, AddEvent (IngressObj ig_one)),
     (Sni_source, AddEvent (ex_sni_policy [ex_sni ''b.com'', ex_sni ''c.com''])),
     (ConfigMaps_source, AddEvent (ConfigMapObj cm_example)),
     (Sni_source, DeleteEvent (ex_sni_policy [ex_sni ''b.com'']))]"

lemma ex_policy_events_of:
  "events_of Caching_source ex_policy_events = [AddEvent (ex_policy [ex_rule ''url_regex'' ''b'' ''3h''])]"
  "events_of Sni_source ex_policy_events = [AddEvent (ex_sni_policy [ex_sni ''b.com'', ex_sni ''c.com'']),
     DeleteEvent (ex_sni_policy [ex_sni ''b.com''])]"
  by (simp_all add: ex_policy_events_def events_of_simps)

lemma ex_policy_events_valid: "valid_events mem_endpoint ex_policy_events"
  using ex_safe
  by (simp add: valid_events_def ex_policy_events_def policy_valid_def ex_policy_def ex_sni_policy_def)

theorem controller_run_files_witness:
  "\<exists>s' m' x'. controller_run mem_outside mem_endpoint ex_policy_events
      (mem_empty, (Some ex_manager, disk_set CACHE_PATH (text_of [''# x'']) mem_disk_empty)) = Ok (s', (Some m', x'))
    \<and> mem_content x' CACHE_PATH = Some (text_of [''# x'', ''url_regex=b ttl-in-cache=3h''])
    \<and> host_map (\<lambda>e. e) (sni_file plain_yaml (mem_content x' SNI_PATH)) ''c.com'' = Some (ex_sni ''c.com'')
    \<and> host_map (\<lambda>e. e) (sni_file plain_yaml (mem_content x' SNI_PATH)) ''b.com'' = None"
proof -
  let ?P = mem_outside and ?r = "(''url_regex'', ''b'', ''3h'')"
  let ?disk = "disk_set CACHE_PATH (text_of [''# x'']) mem_disk_empty"
  have p: "Redis_of ?P = mem_redis" "Files_of ?P = mem_files" "Ats_of ?P = mem_env" "Yaml_of ?P = plain_yaml"
    "Nested_of ?P = plain_lib" "Range_order ?P = rev" "Entry_order ?P = (\<lambda>e. e)" "Sni_range ?P = rev"
    by (simp_all add: mem_outside_def)
  have r: "redis_server (Redis_of ?P) mem_members mem_up" unfolding p by (rule mem.redis_server_axioms)
  have c: "ats_commands (Files_of ?P) mem_content mem_healthy (Ats_of ?P)"
    unfolding p by (rule mem_commands.ats_commands_axioms)
  have "list_all (entries_good plain_lib plain_entry) (events_of Sni_source ex_policy_events)"
    unfolding ex_policy_events_of by code_simp
  then have ok: "policies_ok ?P plain_entry (\<lambda>e. e) ex_policy_events"
    using plain_reads_back by (simp add: policies_ok_def p)
  have eval: "policy_rules plain_lib ''rules'' (ex_policy [ex_rule ''url_regex'' ''b'' ''3h'']) = Some [ex_rule ''url_regex'' ''b'' ''3h'']"
    "cache_rules plain_lib [ex_rule ''url_regex'' ''b'' ''3h''] = [?r]" "writable [?r]" "distinct (map rule_key ([] @ [?r]))"
    by code_simp+
  have "cache_step plain_lib [''# x''] [] (AddEvent (ex_policy [ex_rule ''url_regex'' ''b'' ''3h''])) [?r]"
    using cache_step.added [OF eval(1), of "[]"] eval(3,4) unfolding eval(2) by simp
  then have run: "cache_run (Nested_of ?P) [''# x''] [] (events_of Caching_source ex_policy_events) [?r]"
    unfolding ex_policy_events_of p by (auto simp: cache_run_simps)
  have b: "list_all one_line [''# x'']" by code_simp
  have h: "mem_healthy ?disk" using ex_sni_start(3) by simp
  have f: "policy_files (Yaml_of ?P) plain_entry (\<lambda>e. e) [''# x''] [] (\<lambda>_. None) (mem_content ?disk)"
  proof -
    have "mem_content ?disk CACHE_PATH = Some (config_file [''# x''] [])" "rules_ok []"
      "sni_file plain_yaml (mem_content ?disk SNI_PATH) = []" by code_simp+
    then show ?thesis using ex_sni_start(2) by (simp add: policy_files_def p host_map_def)
  qed
  have e: "policy_entries plain_lib (ex_sni_policy [ex_sni ''b.com'', ex_sni ''c.com''])
      = Some [(''b.com'', ex_sni ''b.com''), (''c.com'', ex_sni ''c.com'')]"
    "policy_entries plain_lib (ex_sni_policy [ex_sni ''b.com'']) = Some [(''b.com'', ex_sni ''b.com'')]" by code_simp+
  have T: "fold (sni_spec plain_lib (\<lambda>e. e)) (events_of Sni_source ex_policy_events) (\<lambda>_. None)
      = [''c.com'' \<mapsto> ex_sni ''c.com'']"
    by (auto simp: sni_spec_def e ex_policy_events_of restrict_map_def fun_eq_iff)
  have l: "config_file [''# x''] [?r] = text_of [''# x'', ''url_regex=b ttl-in-cache=3h'']" by code_simp
  obtain s' m' x' where run': "controller_run ?P mem_endpoint ex_policy_events (mem_empty, (Some ex_manager, ?disk)) = Ok (s', (Some m', x'))"
    "policy_files plain_yaml plain_entry (\<lambda>e. e) [''# x''] [?r] [''c.com'' \<mapsto> ex_sni ''c.com''] (mem_content x')"
    using controller_run_files [OF r, OF mem_open mem_empty_up ex_policy_events_valid c, OF ok run b h f, of ex_manager]
    unfolding p T by blast
  then show ?thesis by (simp add: policy_files_def l)
qed

end
