(* ===== verification/Spec2Isabelle.thy ===== *)
theory Spec2Isabelle
  imports System Json_Writer Policies
begin

text \<open>
  A verification development for the Apache Traffic Server ingress controller: the Go program under
  \<open>src/\<close> that watches Kubernetes objects and maintains the routing tables of a proxy, and the Lua
  plugin with which the proxy reads them.

  \<^bold>\<open>The program.\<close> \<open>main/main.go\<close> reads flags, empties Redis and starts \<open>watcher/watcher.go\<close>, which
  registers five handlers with informers. The handlers share \<open>endpoint/endpoint.go\<close>: a Redis client
  (\<open>redis/redis.go\<close>), the ATS manager (\<open>proxy/ats.go\<close>), the namespaces (\<open>namespace/namespace.go\<close>).
  The ingress handler keeps database 1 (routing key to services and snippet keys), the endpoints
  handler database 0 (service to addresses), the ConfigMap handler sets configuration variables, the
  two policy handlers rewrite \<open>cache.config\<close> and \<open>sni.yaml\<close>. The proxy runs
  \<open>pluginats/connect_redis.lua\<close> on every request: routing key in database 1, address in database 0.

  \<^bold>\<open>How code becomes definitions.\<close> A struct is a record, a nil-able pointer or interface an option, a
  Go map an association list with distinct keys, a port a 32-bit word. A handler is a \<open>'s prog\<close>: it
  ends with \<open>Ok\<close> or with \<open>Panic\<close>, and keeps the state in both cases. A range over a map takes the
  order as a parameter, and the theorems hold for every order (\<open>range_order\<close>). Libraries and services
  are parameters: records of functions over a state of their own, whose documented behaviour is a
  locale (\<open>redis_server\<close>, \<open>file_system\<close>, \<open>failing_files\<close> for a disk on which calls may fail,
  \<open>ats_files\<close>, \<open>ats_commands\<close>, \<open>traffic_ctl\<close>, \<open>informers\<close>, \<open>lua_client\<close>, \<open>lua_sets\<close>, \<open>os_files\<close>). Each
  locale is interpreted by an in-memory instance, on which the witnesses run. \<open>event_handler\<close> is the
  contract of a handler, interpreted by the models of the five handlers; \<open>class_filter\<close> that of a manager.

  \<^bold>\<open>Theories.\<close>
  \<^item> \<open>Go_Prelude\<close>: programs that may panic, the relation \<open>refines\<close> between a program and the function
    on abstract states it computes, Go maps, strings. \<open>K8s_Objects\<close>: the Kubernetes objects as far as
    the handlers read them. \<open>Util\<close>, \<open>Json_Writer\<close>: \<open>util/util.go\<close>. \<open>Namespace\<close>, \<open>Proxy\<close>, \<open>Redis\<close>: the
    packages of these names. \<open>Files\<close>: files as the policy handlers use them.
  \<^item> \<open>Event_Handler\<close>: shared context, events, contract. \<open>Endpoint_Handler\<close>, \<open>Configmap_Handler\<close>:
    \<open>watcher/handlerEndpoint.go\<close> and \<open>watcher/handlerConfigmap.go\<close>. \<open>Cache_Handler\<close> and
    \<open>Cache_Properties\<close>, \<open>Sni_Handler\<close> and \<open>Sni_Properties\<close>: \<open>handlerCache.go\<close> and \<open>handlerSni.go\<close>.
    \<open>Cache_Runs\<close>: the documented table of rules (\<open>policy_step\<close>), simulated by what the handler does to
    the list of rules (\<open>cache_step\<close>), whose lines are \<open>cache.config\<close>. \<open>Sni_Runs\<close>: the documented map of
    hosts (\<open>sni_documented\<close>), what the handler does to it (\<open>sni_spec\<close>), and \<open>sni.yaml\<close> read back as it.
  \<^item> \<open>Ingress_Handler\<close>: \<open>handlerIngress.go\<close>. \<open>Ingress_Table\<close>: the routes of an ingress and the closed
    forms of the handler's loops. \<open>Ingress_Refinement\<close>: Add, Update and Delete refine functions on the
    abstract databases, and panic exactly on unsafe objects. \<open>Ingress_Properties\<close>: the operations one by
    one. \<open>Ingress_Runs\<close>: the set of live ingresses as a step relation, and the simulation by database 1.
  \<^item> \<open>Redis_Calls\<close>: the handlers as lists of Redis commands, and their interleavings. \<open>Controller\<close>: the
    five handlers over one world. \<open>Policies\<close>: the two policy files in a run of all five. \<open>Watcher\<close>:
    \<open>watcher.go\<close>, with the trace of what the informer library is asked to do. \<open>Main_Program\<close>: \<open>main.go\<close>.
  \<^item> \<open>Router\<close>: \<open>connect_redis.lua\<close>. \<open>Router_Properties\<close>: its lookup as the first of a list of candidate
    keys, the longest prefix, the number of commands. \<open>System\<close>: from \<open>main\<close> to the tables and from the
    tables to a request.

  \<^bold>\<open>What the theorems show.\<close> From the start of the program, after any events in any order on valid
  objects, no handler has panicked, database 1 is the routing table of the live ingresses, and with
  snippets disabled a request for one of their routes is sent to an address of a service of the route,
  if every service registered under the routing key has an address; a service without addresses ends
  the hook early (\<open>request_stopped\<close>). The main assumption is that no two live ingresses claim the same
  routing key; without it, theorems describe what an update destroys or keeps. Each operation has its
  net effect stated on every branch, errors and panics included; files are treated the same way, on a
  healthy disk, with \<open>sni.yaml\<close> never half written on a failing one.
  After any mix of events each policy file is what the events of its own handler make of it. That this
  is the documented effect (an update replaces the entries or rules of the old policy, a deletion takes
  them out) is shown where the code has it: for \<open>sni.yaml\<close> as long as no new version of a policy drops a
  host of the old one (\<open>drops_no_host\<close>), for \<open>cache.config\<close> under the conditions of \<open>policy_step\<close>; the
  other cases are theorems of their own about what the code does instead. The yaml library is assumed
  to read back what it writes (\<open>yaml_reads_back\<close>).
  Interleavings: the commands of ingress and endpoints events may alternate in any way.

  \<^bold>\<open>The start.\<close> In \<open>main_start\<close> registering and starting an informer change the state of the informer
  library only: the listings that informers deliver while \<open>main\<close> still waits for their synchronisation are
  events like all others, and are given to the handlers after it in the model. \<open>main_ready\<close> states that the
  handlers are started on empty databases and that such events find them so, not that the
  databases are still empty once \<open>main\<close> has reached its signal loop.

  \<^bold>\<open>Loops and bounds.\<close> All loops are structural recursions or functions with a measure (the in-place
  reversal, the splitting of strings, the search for slashes), so no fuel is used. Waiting for an
  informer may never end; then \<open>Watch\<close> is \<open>Waiting\<close>. A lookup of the plugin sends at most twelve commands
  (a choice of the database before each read), and twelve more for each slash of the path.

  \<^bold>\<open>Not modelled.\<close> Log output. Locks: calls under a lock come one after the other. The inside of
  client-go, go-redis, the yaml and json packages, the Lua client of Redis, \<open>traffic_ctl\<close>, and the Lua
  code of snippets. Interleavings inside the two policy handlers and the ConfigMap handler, which share
  the files and the manager: they are run event by event. Deployment files, scripts and tests.
\<close>

end
